theory Spec2Isabelle
  imports Main "HOL-Library.AList"
begin

section \<open>Python values shared by the components\<close>

text \<open>
  Python dictionaries keep their keys in insertion order: assigning to a key that is
  present replaces the value in place, assigning to a new key appends it. An association
  list with \<open>map_of\<close> for lookup and \<open>AList.update\<close> for assignment has exactly
  this behaviour, and iteration over \<open>items()\<close> is iteration over the list.
  Characters are ASCII; code points above 127 are outside the model.
\<close>

datatype py_error = AttributeError | TypeError | KeyError | IndexError

type_synonym 'v pydict = "(string \<times> 'v) list"

definition ord :: "char \<Rightarrow> nat" where
  "ord c = of_char c"

definition is_digit :: "char \<Rightarrow> bool" where
  "is_digit c = (48 \<le> ord c \<and> ord c \<le> 57)"

definition isdigit :: "string \<Rightarrow> bool" where
  \<comment> \<open>\<open>str.isdigit()\<close>: non-empty and every character a digit.\<close>
  "isdigit s = (s \<noteq> [] \<and> list_all is_digit s)"

definition digit_val :: "char \<Rightarrow> nat" where
  "digit_val c = ord c - 48"

definition int_of_str :: "string \<Rightarrow> nat" where
  \<comment> \<open>\<open>int(s)\<close> for a string of decimal digits.\<close>
  "int_of_str s = foldl (\<lambda>n c. 10 * n + digit_val c) 0 s"

definition digit_char :: "nat \<Rightarrow> char" where
  "digit_char d = char_of (48 + d)"

fun str_nat :: "nat \<Rightarrow> string" where
  "str_nat n = (if n < 10 then [digit_char n] else str_nat (n div 10) @ [digit_char (n mod 10)])"

declare str_nat.simps [simp del]

definition zfill2 :: "nat \<Rightarrow> string" where
  \<comment> \<open>\<open>str(n).zfill(2)\<close> and \<open>f"{n:02d}"\<close> agree on the non-negative integers.\<close>
  "zfill2 n = (if n < 10 then CHR ''0'' # str_nat n else str_nat n)"

fun is_substring :: "string \<Rightarrow> string \<Rightarrow> bool" where
  "is_substring xs [] = (xs = [])"
| "is_substring xs (y # ys) = (take (length xs) (y # ys) = xs \<or> is_substring xs ys)"

section \<open>Token ID generator (compiler/semantic_analyzer/token_id_generator.py)\<close>

type_synonym registry = "(string pydict) pydict"

record token_id_generator =
  token_registry_path :: "string option"
  token_registry :: registry
  category_counters :: "nat pydict"

text \<open>The persisted documents: a path holds the registry last written to it, if any.\<close>

type_synonym files = "string \<rightharpoonup> registry"

definition category_prefixes :: "string pydict" where
  "category_prefixes =
    [(''system'', ''S''), (''context'', ''C''), (''task'', ''T''), (''condition'', ''L''),
     (''action'', ''P''), (''resource'', ''R''), (''query'', ''Q''), (''batch'', ''B''),
     (''directive'', ''D''), (''memory'', ''M''), (''network'', ''N''), (''handler'', ''H''),
     (''security'', ''S'')]"

subsection \<open>Normalisation\<close>

definition lower_char :: "char \<Rightarrow> char" where
  "lower_char c = (if 65 \<le> ord c \<and> ord c \<le> 90 then char_of (ord c + 32) else c)"

definition lower :: "string \<Rightarrow> string" where
  "lower s = map lower_char s"

definition is_space :: "char \<Rightarrow> bool" where
  \<comment> \<open>\<open>\s\<close> on ASCII: tab, newline, vertical tab, form feed, carriage return, the four
      separators 0x1c to 0x1f, and space.\<close>
  "is_space c = ((9 \<le> ord c \<and> ord c \<le> 13) \<or> (28 \<le> ord c \<and> ord c \<le> 32))"

definition is_word :: "char \<Rightarrow> bool" where
  \<comment> \<open>\<open>\w\<close> on ASCII: letters, digits and the underscore.\<close>
  "is_word c = ((97 \<le> ord c \<and> ord c \<le> 122) \<or> (65 \<le> ord c \<and> ord c \<le> 90)
                \<or> is_digit c \<or> c = CHR ''_'')"

fun collapse_space :: "bool \<Rightarrow> string \<Rightarrow> string" where
  \<comment> \<open>\<open>re.sub(r'\s+', '_', s)\<close>: every maximal run of whitespace becomes one underscore.
      The flag says that the previous character belonged to a run already replaced.\<close>
  "collapse_space in_run [] = []"
| "collapse_space in_run (c # cs) =
     (if is_space c then (if in_run then collapse_space True cs
                          else CHR ''_'' # collapse_space True cs)
      else c # collapse_space False cs)"

definition normalize_value :: "string \<Rightarrow> string" where
  "normalize_value v =
     (if v = [] then []
      else collapse_space False (filter (\<lambda>c. is_word c \<or> is_space c) (lower v)))"

subsection \<open>Construction and loading\<close>

definition max_id :: "string pydict \<Rightarrow> nat" where
  "max_id tokens = foldl (\<lambda>m (v, tid). if isdigit tid then max m (int_of_str tid) else m) 0 tokens"

definition counter_step :: "nat pydict \<Rightarrow> string \<times> string pydict \<Rightarrow> nat pydict" where
  \<comment> \<open>The body of the loop of \<open>_initialize_category_counters\<close> for one registry item.\<close>
  "counter_step cs item =
     (case item of (category, tokens) \<Rightarrow>
        if category \<in> fst ` set cs then AList.update category (max_id tokens + 1) cs else cs)"

definition initialize_category_counters :: "registry \<Rightarrow> nat pydict \<Rightarrow> nat pydict" where
  "initialize_category_counters reg counters = foldl counter_step counters reg"

definition initial_counters :: "nat pydict" where
  \<comment> \<open>\<open>{category: 1 for category in self.category_prefixes.keys()}\<close>\<close>
  "initial_counters = map (\<lambda>(c, p). (c, 1)) category_prefixes"

definition truthy_path :: "string option \<Rightarrow> bool" where
  "truthy_path p = (case p of None \<Rightarrow> False | Some s \<Rightarrow> s \<noteq> [])"

definition TokenIDGenerator_init :: "string option \<Rightarrow> files \<Rightarrow> py_error + token_id_generator" where
  \<comment> \<open>\<open>__init__\<close> calls \<open>_load_token_registry\<close> before it assigns
      \<open>self.category_prefixes\<close>. When a readable document exists at the path it is
      returned; on every other route the loader reaches its last line, which reads
      \<open>self.category_prefixes\<close> and raises \<open>AttributeError\<close>.\<close>
  "TokenIDGenerator_init path fs =
     (case (if truthy_path path then fs (the path) else None) of
        None \<Rightarrow> Inl AttributeError
      | Some reg \<Rightarrow>
          Inr \<lparr>token_registry_path = path,
               token_registry = reg,
               category_counters =
                 initialize_category_counters reg initial_counters\<rparr>)"

definition save_token_registry :: "bool \<Rightarrow> token_id_generator \<Rightarrow> files \<Rightarrow> files" where
  \<comment> \<open>\<open>_save_token_registry\<close> behind its caller's \<open>if self.token_registry_path\<close>.
      \<open>io_ok\<close> says whether \<open>os.makedirs\<close> and the write went through; a failure is
      logged and leaves the document as it was.\<close>
  "save_token_registry io_ok g fs =
     (if truthy_path (token_registry_path g) \<and> io_ok
      then fs(the (token_registry_path g) \<mapsto> token_registry g) else fs)"

subsection \<open>Generating identifiers\<close>

definition taken_ids :: "registry \<Rightarrow> string \<Rightarrow> string list" where
  \<comment> \<open>\<open>self.token_registry[category].values()\<close>, empty when the category is absent.\<close>
  "taken_ids reg category = (case map_of reg category of None \<Rightarrow> [] | Some toks \<Rightarrow> map snd toks)"

text \<open>
  The collision loop of \<open>_generate_new_token_id\<close>. \<open>start\<close> is the hash-derived
  first candidate; \<open>uuid k\<close> is the value of the last two hexadecimal digits of the
  \<open>k\<close>-th \<open>uuid.uuid4()\<close> drawn in this call. The loop has no bound in the source,
  so the model returns \<open>None\<close> where it runs forever.
\<close>

partial_function (option) probe :: "(nat \<Rightarrow> nat) \<Rightarrow> nat \<Rightarrow> string list \<Rightarrow> nat \<Rightarrow> nat \<Rightarrow> nat option" where
  "probe uuid k taken start token_id =
     (if zfill2 token_id \<in> set taken
      then (let t = token_id mod 99 + 1
            in if t = start then probe uuid (Suc k) taken start (uuid k mod 99 + 1)
               else probe uuid k taken start t)
      else Some token_id)"

declare probe.simps [code]

definition counter_of :: "token_id_generator \<Rightarrow> string \<Rightarrow> nat" where
  \<comment> \<open>\<open>self.category_counters.get(category, 1)\<close>\<close>
  "counter_of g category = (case map_of (category_counters g) category of None \<Rightarrow> 1 | Some n \<Rightarrow> n)"

definition generate_new_token_id ::
  "(string \<Rightarrow> nat) \<Rightarrow> (nat \<Rightarrow> nat) \<Rightarrow> string \<Rightarrow> string \<Rightarrow> token_id_generator
     \<Rightarrow> (string \<times> token_id_generator) option" where
  \<comment> \<open>\<open>seed_of value\<close> stands for \<open>int(hashlib.sha256(value.encode()).hexdigest()[:8], 16)\<close>.\<close>
  "generate_new_token_id seed_of uuid value category g =
     (let next_id = counter_of g category;
          found = (if value \<noteq> []
                   then (let start = (seed_of value + next_id) mod 99 + 1
                         in probe uuid 0 (taken_ids (token_registry g) category) start start)
                   else Some next_id)
      in case found of
           None \<Rightarrow> None
         | Some token_id \<Rightarrow>
             Some (zfill2 token_id,
                   g\<lparr>category_counters :=
                        AList.update category (max next_id token_id + 1) (category_counters g)\<rparr>))"

definition store_token :: "string \<Rightarrow> string \<Rightarrow> string \<Rightarrow> registry \<Rightarrow> registry" where
  \<comment> \<open>\<open>if c not in reg: reg[c] = {}\<close> followed by \<open>reg[c][value] = token_id\<close>.\<close>
  "store_token category value token_id reg =
     (case map_of reg category of
        None \<Rightarrow> reg @ [(category, [(value, token_id)])]
      | Some toks \<Rightarrow> AList.update category (AList.update value token_id toks) reg)"

definition lookup_token :: "registry \<Rightarrow> string \<Rightarrow> string \<Rightarrow> string option" where
  \<comment> \<open>\<open>reg[c][value]\<close> behind the test \<open>c in reg and value in reg[c]\<close>.\<close>
  "lookup_token reg category value =
     (case map_of reg category of None \<Rightarrow> None | Some toks \<Rightarrow> map_of toks value)"

definition generate_token_id ::
  "(string \<Rightarrow> nat) \<Rightarrow> (nat \<Rightarrow> nat) \<Rightarrow> bool \<Rightarrow> string \<Rightarrow> string \<Rightarrow> token_id_generator \<Rightarrow> files
     \<Rightarrow> (string \<times> token_id_generator \<times> files) option" where
  "generate_token_id seed_of uuid io_ok value category g fs =
     (let normalized_value = normalize_value value;
          normalized_category = lower category;
          prefix = (case map_of category_prefixes normalized_category of None \<Rightarrow> ''D'' | Some p \<Rightarrow> p);
          existing = lookup_token (token_registry g) normalized_category normalized_value
      in case existing of
           Some token_id \<Rightarrow> Some (prefix @ token_id, g, fs)
         | None \<Rightarrow>
            (case generate_new_token_id seed_of uuid normalized_value normalized_category g of
               None \<Rightarrow> None
             | Some (token_id, g1) \<Rightarrow>
                 (let g2 = g1\<lparr>token_registry :=
                               store_token normalized_category normalized_value token_id
                                 (token_registry g1)\<rparr>;
                      g3 = (case map_of (category_counters g2) normalized_category of
                              None \<Rightarrow> g2
                            | Some n \<Rightarrow>
                                g2\<lparr>category_counters :=
                                     AList.update normalized_category
                                       (max n (int_of_str token_id + 1)) (category_counters g2)\<rparr>)
                  in Some (prefix @ token_id, g3, save_token_registry io_ok g3 fs))))"

subsection \<open>Resolving a token\<close>

definition category_of_prefix :: "string \<Rightarrow> string option" where
  \<comment> \<open>The first category, in table order, whose prefix is the given one.\<close>
  "category_of_prefix prefix = map_option fst (find (\<lambda>(cat, pre). pre = prefix) category_prefixes)"

definition get_value_from_token :: "token_id_generator \<Rightarrow> string \<Rightarrow> string option \<times> string option" where
  "get_value_from_token g token =
     (if token = [] \<or> length token < 2 then (None, None)
      else (let prefix = [hd token]; token_id = tl token
            in case category_of_prefix prefix of
                 None \<Rightarrow> (None, None)
               | Some category \<Rightarrow>
                  (case map_of (token_registry g) category of
                     None \<Rightarrow> (None, None)
                   | Some toks \<Rightarrow>
                      (case find (\<lambda>(value, tid). tid = token_id) toks of
                         None \<Rightarrow> (None, None)
                       | Some (value, tid) \<Rightarrow> (Some value, Some category)))))"

text \<open>
  Resolving what was just generated: \<open>get_value_from_token\<close> applied, on the same
  generator, to the string \<open>generate_token_id\<close> returned.
\<close>

definition resolve_generated ::
  "(string \<Rightarrow> nat) \<Rightarrow> (nat \<Rightarrow> nat) \<Rightarrow> bool \<Rightarrow> string \<Rightarrow> string \<Rightarrow> token_id_generator \<Rightarrow> files
     \<Rightarrow> (string \<times> string option \<times> string option) option" where
  "resolve_generated seed_of uuid io_ok value category g fs =
     (case generate_token_id seed_of uuid io_ok value category g fs of
        None \<Rightarrow> None
      | Some (tok, g', fs') \<Rightarrow> Some (tok, get_value_from_token g' tok))"

text \<open>
  Values of \<open>seed_of\<close> for the closed examples below: the first eight hexadecimal
  digits of the SHA-256 digests of the strings used there.
\<close>

definition sha256_seed :: "string \<Rightarrow> nat" where
  "sha256_seed v =
     (if v = ''initialize_system'' then 4039449604
      else if v = ''abc'' then 3128432319
      else if v = ''x'' then 762385986
      else if v = ''new_value'' then 839484717
      else 3820012610)"


subsection \<open>Vocabulary for the properties of the generator\<close>

definition saturated :: "string list \<Rightarrow> bool" where
  \<comment> \<open>Every identifier the collision loop can try, \<open>01\<close> to \<open>99\<close>, is taken.\<close>
  "saturated taken = list_all (\<lambda>t. zfill2 t \<in> set taken) [1..<100]"

definition is_two_digit :: "string \<Rightarrow> bool" where
  "is_two_digit tid = (length tid = 2 \<and> list_all is_digit tid)"

definition two_digit_ids :: "registry \<Rightarrow> string \<Rightarrow> string list" where
  \<comment> \<open>The distinct two-digit numeric identifiers registered in a category.\<close>
  "two_digit_ids reg category = remdups (filter is_two_digit (taken_ids reg category))"

definition step :: "nat \<Rightarrow> nat" where
  \<comment> \<open>One advance of the collision loop: \<open>token_id = (token_id % 99) + 1\<close>.\<close>
  "step t = t mod 99 + 1"

text \<open>A registry whose category \<open>custom\<close> holds all of \<open>01\<close> to \<open>99\<close>, and a
  generator as \<open>__init__\<close> builds it from a document.\<close>

definition saturated_registry :: registry where
  "saturated_registry = [(''custom'', map (\<lambda>n. (CHR ''v'' # str_nat n, zfill2 n)) [1..<100])]"

definition sample_registry :: registry where
  "sample_registry = [(''task'', [(''x'', ''08''), (''y'', ''60'')])]"

definition sample_generator :: "registry \<Rightarrow> token_id_generator" where
  "sample_generator reg =
     \<lparr>token_registry_path = Some ''data/token_registry.json'', token_registry = reg,
      category_counters = initialize_category_counters reg initial_counters\<rparr>"

text \<open>
  What the registry of one category looks like when it was filled by
  \<open>generate_token_id\<close>: no identifier is empty, no two values share an identifier, and
  the category's counter lies above every numeric identifier.
\<close>

definition registry_ok :: "token_id_generator \<Rightarrow> string \<Rightarrow> bool" where
  "registry_ok g category =
     (distinct (taken_ids (token_registry g) category)
      \<and> [] \<notin> set (taken_ids (token_registry g) category)
      \<and> list_all (\<lambda>tid. isdigit tid \<longrightarrow> int_of_str tid < counter_of g category)
            (taken_ids (token_registry g) category))"

definition unambiguous_categories :: "string list" where
  \<comment> \<open>The categories of the table except \<open>security\<close>, whose prefix \<open>S\<close> resolves to
      \<open>system\<close>.\<close>
  "unambiguous_categories =
     [''system'', ''context'', ''task'', ''condition'', ''action'', ''resource'', ''query'',
      ''batch'', ''directive'', ''memory'', ''network'', ''handler'']"

text \<open>A registry document in which no category holds a token: \<open>{}\<close>, or every
  category mapped to \<open>{}\<close>.\<close>

definition empty_document :: "registry \<Rightarrow> bool" where
  "empty_document reg = list_all (\<lambda>(c, toks). toks = []) reg"

text \<open>A run of calls of \<open>generate_token_id\<close> on one generator, each with its own
  UUID draws and its own outcome of the save; \<open>None\<close> when a call does not return.\<close>

fun generate_all ::
  "(string \<Rightarrow> nat) \<Rightarrow> ((nat \<Rightarrow> nat) \<times> bool \<times> string \<times> string) list \<Rightarrow> token_id_generator \<Rightarrow> files
     \<Rightarrow> (token_id_generator \<times> files) option" where
  "generate_all seed_of [] g fs = Some (g, fs)"
| "generate_all seed_of ((uuid, io_ok, v, c) # calls) g fs =
     (case generate_token_id seed_of uuid io_ok v c g fs of
        None \<Rightarrow> None
      | Some (tok, g', fs') \<Rightarrow> generate_all seed_of calls g' fs')"

text \<open>The first candidate of the collision loop in a category whose counter is 1.\<close>

definition first_id :: "(string \<Rightarrow> nat) \<Rightarrow> string \<Rightarrow> string" where
  "first_id seed_of v = zfill2 ((seed_of v + 1) mod 99 + 1)"

section \<open>Structure synthesizer (compiler/structure_synthesizer.py)\<close>

text \<open>
  The semantic analysis is typed as the analyzer produces it: a token is a dictionary of
  strings (\<open>source\<close>, \<open>token\<close>, \<open>category\<close>), a relationship is one of the five
  kinds the converter knows, and an expression element is a token dictionary, an operator
  string, or the conditional dictionary that the shunting-yard pass builds. Both stacks
  are Python lists: the top is the last item.
\<close>

type_synonym token_entry = "string pydict"

datatype relationship =
    Binary "string option" "string option" "string option"
  | ConditionalRel "string option" "string option" "string option"
  | RepetitionRel "string option" "int option"
  | ContextActivationRel "string option" "string option"
  | AggregationRel "string option list"
  | OtherRel

datatype element =
    Token string
  | Op string
  | Conditional element "element list" "element list"
  | OtherElement

record semantic_structure =
  elements :: "element list"
  tokens :: "token_entry list"
  relationships :: "relationship list"

record semantic_analysis =
  token_mappings :: "token_entry pydict"
  operator_mappings :: "string pydict"
  semantic_structure :: "semantic_structure option"

definition operator_precedence :: "nat pydict" where
  "operator_precedence =
     [(''[]'', 9), (''!'', 8), (''**'', 7), (''?:'', 6), (''&'', 5), (''|'', 4), (''>'', 3),
      (''='', 2), (''#'', 1)]"

definition operator_associativity :: "string pydict" where
  "operator_associativity =
     [(''[]'', ''none''), (''!'', ''right''), (''**'', ''right''), (''?:'', ''right''),
      (''&'', ''left''), (''|'', ''left''), (''>'', ''left''), (''='', ''right''),
      (''#'', ''right'')]"

definition precedence_of :: "string \<Rightarrow> nat" where
  \<comment> \<open>\<open>self.operator_precedence.get(operator, 0)\<close>\<close>
  "precedence_of operator = (case map_of operator_precedence operator of None \<Rightarrow> 0 | Some p \<Rightarrow> p)"

definition get_operator_precedence :: "string \<Rightarrow> nat" where
  "get_operator_precedence operator =
     (if operator = ''?'' \<or> operator = '':'' then precedence_of ''?:''
      else precedence_of operator)"

definition get_operator_associativity :: "string \<Rightarrow> string" where
  "get_operator_associativity operator =
     (if operator = ''?'' \<or> operator = '':''
      then (case map_of operator_associativity ''?:'' of None \<Rightarrow> ''right'' | Some a \<Rightarrow> a)
      else (case map_of operator_associativity operator of None \<Rightarrow> ''left'' | Some a \<Rightarrow> a))"

subsection \<open>From relationships to expression elements\<close>

definition token_of :: "token_entry \<Rightarrow> string" where
  \<comment> \<open>\<open>token.get("token", "")\<close>\<close>
  "token_of t = (case map_of t ''token'' of None \<Rightarrow> [] | Some v \<Rightarrow> v)"

definition find_token :: "token_entry pydict \<Rightarrow> string option \<Rightarrow> token_entry option" where
  \<comment> \<open>The loop that keeps the last token of \<open>token_mappings\<close> whose source is the wanted one.\<close>
  "find_token mappings wanted =
     (case filter (\<lambda>(token_id, t). map_of t ''source'' = wanted) mappings of
        [] \<Rightarrow> None
      | ms \<Rightarrow> Some (snd (last ms)))"

definition found :: "token_entry option \<Rightarrow> bool" where
  \<comment> \<open>Truth of a variable that is \<open>None\<close> or a token dictionary.\<close>
  "found t = (case t of None \<Rightarrow> False | Some d \<Rightarrow> d \<noteq> [])"

definition str_int :: "int \<Rightarrow> string" where
  "str_int i = (if i < 0 then CHR ''-'' # str_nat (nat (- i)) else str_nat (nat i))"

fun relationship_elements :: "token_entry pydict \<Rightarrow> relationship \<Rightarrow> element list" where
  "relationship_elements mappings (Binary operator source target) =
     (let source_token = find_token mappings source; target_token = find_token mappings target
      in if found source_token \<and> found target_token
         then [Token (token_of (the source_token)),
               Op (case operator of None \<Rightarrow> ''>'' | Some s \<Rightarrow> s),
               Token (token_of (the target_token))]
         else [])"
| "relationship_elements mappings (ConditionalRel condition true_branch false_branch) =
     (let condition_token = find_token mappings condition;
          true_token = find_token mappings true_branch;
          false_token = find_token mappings false_branch
      in if found condition_token \<and> found true_token
         then [Token (token_of (the condition_token)), Op ''?'',
               Token (token_of (the true_token))]
              @ (if found false_token then [Op '':'', Token (token_of (the false_token))]
                 else [])
         else [])"
| "relationship_elements mappings (RepetitionRel expression count) =
     (let expr_token = find_token mappings expression
      in if found expr_token
         then [Token (token_of (the expr_token)), Op ''**'',
               Token (str_int (case count of None \<Rightarrow> 1 | Some n \<Rightarrow> n))]
         else [])"
| "relationship_elements mappings (ContextActivationRel expression context) =
     (let expr_token = find_token mappings expression; context_token = find_token mappings context
      in if found expr_token \<and> found context_token
         then [Token (token_of (the expr_token)), Op ''!'',
               Token (token_of (the context_token))]
         else [])"
| "relationship_elements mappings (AggregationRel expressions) =
     (let expr_tokens =
            concat (map (\<lambda>expr. map snd (filter (\<lambda>(token_id, t). map_of t ''source'' = expr)
                                               mappings)) expressions)
      in case expr_tokens of
           [] \<Rightarrow> []
         | first # others \<Rightarrow>
             [Op ''#'', Op ''['', Token (token_of first)]
             @ concat (map (\<lambda>t. [Op '','', Token (token_of t)]) others)
             @ [Op '']''])"
| "relationship_elements mappings OtherRel = []"

definition token_elements :: "token_entry list \<Rightarrow> element list" where
  "token_elements ts = map (\<lambda>t. Token (token_of t)) ts"

definition convert_to_expression_elements ::
  "semantic_structure \<Rightarrow> token_entry pydict \<Rightarrow> element list" where
  "convert_to_expression_elements structure mappings =
     (if elements structure \<noteq> [] then elements structure
      else if relationships structure = [] \<and> tokens structure \<noteq> []
        then token_elements (tokens structure)
      else (let converted = concat (map (relationship_elements mappings) (relationships structure))
            in if converted = [] \<and> tokens structure \<noteq> [] then token_elements (tokens structure)
               else converted))"

subsection \<open>Shunting-yard\<close>

fun find_colon :: "element list \<Rightarrow> nat \<Rightarrow> nat \<Rightarrow> nat" where
  \<comment> \<open>The search for the \<open>:\<close> that matches a \<open>?\<close>: the suffix of the elements from
      position \<open>j\<close>, the position, and the nesting counter. The result is the length of
      the whole list when the search runs off its end.\<close>
  "find_colon [] j nesting = j"
| "find_colon (e # es) j nesting =
     (if e = Op ''?'' \<and> nesting = 0 then find_colon es (Suc j) (Suc nesting)
      else if e = Op '':'' \<and> nesting = 0 then j
      else if e = Op '':'' \<and> nesting > 0 then find_colon es (Suc j) (nesting - 1)
      else find_colon es (Suc j) nesting)"

definition pops :: "string \<Rightarrow> string \<Rightarrow> bool" where
  \<comment> \<open>The condition under which the operator on top of the stack is moved to the output
      before \<open>element\<close> is pushed.\<close>
  "pops element stack_top =
     (stack_top \<noteq> ''[''
      \<and> ((get_operator_associativity element = ''left''
           \<and> get_operator_precedence element \<le> get_operator_precedence stack_top)
         \<or> (get_operator_associativity element = ''right''
           \<and> get_operator_precedence element < get_operator_precedence stack_top)))"

function shunting_loop :: "element list \<Rightarrow> nat \<Rightarrow> element list \<Rightarrow> string list \<Rightarrow> element list" where
  "shunting_loop els i output_queue operator_stack =
     (if i < length els then
        (case els ! i of
           Token v \<Rightarrow> shunting_loop els (Suc i) (output_queue @ [Token v]) operator_stack
         | Op s \<Rightarrow>
            if s = ''['' then shunting_loop els (Suc i) output_queue (operator_stack @ [s])
            else if s = '']'' then
              (let popped = takeWhile (\<lambda>t. t \<noteq> ''['') (rev operator_stack);
                   rest = rev (dropWhile (\<lambda>t. t \<noteq> ''['') (rev operator_stack))
               in shunting_loop els (Suc i) (output_queue @ map Op popped) (butlast rest))
            else if s = '','' then
              (let popped = takeWhile (\<lambda>t. t \<noteq> ''['') (rev operator_stack);
                   rest = rev (dropWhile (\<lambda>t. t \<noteq> ''['') (rev operator_stack))
               in shunting_loop els (Suc i) (output_queue @ map Op popped) rest)
            else if s = ''?'' \<and> find_colon (drop (Suc i) els) (Suc i) 0 < length els then
              (let j = find_colon (drop (Suc i) els) (Suc i) 0;
                   condition = (if i = 0 then last els else els ! (i - 1));
                   true_branch = shunting_loop (take (j - Suc i) (drop (Suc i) els)) 0 [] [];
                   false_branch = shunting_loop (drop (Suc j) els) 0 [] []
               in butlast output_queue @ [Conditional condition true_branch false_branch]
                  @ map Op (rev operator_stack))
            else
              (let popped = takeWhile (pops s) (rev operator_stack);
                   rest = rev (dropWhile (pops s) (rev operator_stack))
               in shunting_loop els (Suc i) (output_queue @ map Op popped) (rest @ [s]))
         | _ \<Rightarrow> shunting_loop els (Suc i) output_queue operator_stack)
      else output_queue @ map Op (rev operator_stack))"
  by pat_completeness auto
termination
  by (relation "measures [\<lambda>(els, i, q, st). length els, \<lambda>(els, i, q, st). length els - i]") auto

declare shunting_loop.simps [simp del]

definition apply_shunting_yard :: "element list \<Rightarrow> element list" where
  "apply_shunting_yard els = shunting_loop els 0 [] []"

subsection \<open>Building the string\<close>

definition precedence_keys :: "string list" where
  "precedence_keys = map fst operator_precedence"

definition needs_brackets :: "string \<Rightarrow> string \<Rightarrow> bool" where
  "needs_brackets expr parent_operator =
     (if expr = [] \<or> (length expr \<le> 3 \<and> \<not> list_ex (\<lambda>op. is_substring op expr) precedence_keys)
      then False
      else list_ex (\<lambda>op. is_substring op expr \<and> op \<noteq> parent_operator
                          \<and> precedence_of op < precedence_of parent_operator)
             precedence_keys)"

definition condition_value :: "element \<Rightarrow> py_error + string" where
  \<comment> \<open>\<open>element.get("condition", {}).get("value", "")\<close>: the condition is the element that
      stood before the \<open>?\<close>; an operator string there has no \<open>get\<close>.\<close>
  "condition_value c =
     (case c of Token v \<Rightarrow> Inr v | Op s \<Rightarrow> Inl AttributeError | _ \<Rightarrow> Inr [])"

definition bracketed :: "string \<Rightarrow> string \<Rightarrow> string" where
  \<comment> \<open>\<open>f"[{x}]" if self._needs_brackets(x, operator) else x\<close>\<close>
  "bracketed x operator = (if needs_brackets x operator then ''['' @ x @ '']'' else x)"

definition apply_operator :: "string \<Rightarrow> string list \<Rightarrow> string list" where
  \<comment> \<open>The branch of \<open>_build_expression\<close> for an operator string, on the operand stack.\<close>
  "apply_operator operator stack =
     (if operator \<in> set [''>'', ''&'', ''|'', ''=''] then
        (if length stack \<ge> 2 then
           (let right = last stack; left = last (butlast stack)
            in butlast (butlast stack) @ [bracketed left operator @ operator @ bracketed right operator])
         else stack)
      else if operator = ''#'' then
        (if length stack \<ge> 1 then butlast stack @ [''#'' @ last stack] else stack)
      else if operator = ''!'' then
        (if length stack \<ge> 2 then
           (let context = last stack; expression = last (butlast stack)
            in butlast (butlast stack) @ [expression @ ''!'' @ context])
         else stack)
      else if operator = ''**'' then
        (if length stack \<ge> 2 then
           (let count = last stack; expression = last (butlast stack)
            in butlast (butlast stack) @ [''**'' @ count @ bracketed expression ''**''])
         else stack)
      else stack)"

function build_expression :: "element list \<Rightarrow> py_error + string"
  and build_loop :: "element list \<Rightarrow> string list \<Rightarrow> py_error + string list" where
  "build_expression output_queue =
     (if output_queue = [] then Inr []
      else (case build_loop output_queue [] of
              Inl e \<Rightarrow> Inl e
            | Inr stack \<Rightarrow> Inr (if stack = [] then [] else hd stack)))"
| "build_loop [] stack = Inr stack"
| "build_loop (Token v # rest) stack = build_loop rest (stack @ [v])"
| "build_loop (Conditional c true_branch false_branch # rest) stack =
     (case condition_value c of
        Inl e \<Rightarrow> Inl e
      | Inr condition \<Rightarrow>
         (case build_expression true_branch of
            Inl e \<Rightarrow> Inl e
          | Inr t \<Rightarrow>
             (case build_expression false_branch of
                Inl e \<Rightarrow> Inl e
              | Inr f \<Rightarrow> build_loop rest (stack @ [condition @ ''?'' @ t @ '':'' @ f]))))"
| "build_loop (Op operator # rest) stack = build_loop rest (apply_operator operator stack)"
| "build_loop (OtherElement # rest) stack = build_loop rest stack"
  by pat_completeness auto
termination
  by (relation "measures [\<lambda>x. case x of Inl q \<Rightarrow> size_list size q | Inr (q, st) \<Rightarrow> size_list size q,
                          \<lambda>x. case x of Inl q \<Rightarrow> 1 | Inr (q, st) \<Rightarrow> 0]") auto

subsection \<open>Synthesis\<close>

definition synthesize :: "semantic_analysis \<Rightarrow> py_error + string" where
  "synthesize analysis =
     (case semantic_structure analysis of
        None \<Rightarrow>
          (case token_mappings analysis of
             [] \<Rightarrow> Inr []
           | (token_id, first_token) # others \<Rightarrow> Inr (token_of first_token))
      | Some structure \<Rightarrow>
          (let els = convert_to_expression_elements structure (token_mappings analysis)
           in if els = [] then Inr []
              else build_expression (apply_shunting_yard els)))"

subsection \<open>Vocabulary for the properties of the synthesizer\<close>

text \<open>The structure of the specification's first scenario, one with a second token, and
  the analysis that carries a structure.\<close>

definition single_token_structure :: semantic_structure where
  "single_token_structure =
     \<lparr>elements = [], tokens = [[(''token'', ''T12'')]], relationships = []\<rparr>"

definition two_token_structure :: semantic_structure where
  "two_token_structure =
     \<lparr>elements = [], tokens = [[(''token'', ''T12'')], [(''token'', ''T13'')]], relationships = []\<rparr>"

definition analysis_of :: "semantic_structure \<Rightarrow> semantic_analysis" where
  "analysis_of structure =
     \<lparr>token_mappings = [], operator_mappings = [], semantic_structure = Some structure\<rparr>"

section \<open>Expression synthesizer (compiler/structure_synthesizer/expression_synthesizer.py)\<close>



section \<open>pAI\_Lang parser (decoder/pailang\_parser.py)\<close>

text \<open>
  \<open>PAILangParser.parse\<close> hands the string to a Lark LALR parser built from the grammar
  in \<open>__init__\<close> and raises when Lark rejects it. The model is the grammar itself: the
  terminals as predicates on lexemes, the rules as an inductive derivation relation on
  lists of lexemes, and \<open>%ignore WS\<close> as whitespace allowed around every lexeme. Lark
  returns a parse tree only for a string that the grammar derives, so a string outside
  \<open>parse_accepts\<close> makes \<open>parse\<close> raise, whichever way the LALR tables and the
  contextual lexer resolve the grammar's ambiguities.
\<close>

definition is_upper :: "char \<Rightarrow> bool" where
  "is_upper c = (65 \<le> ord c \<and> ord c \<le> 90)"

definition is_ws :: "char \<Rightarrow> bool" where
  \<comment> \<open>\<open>common.WS\<close>: \<open>/[ \t\f\r\n]/+\<close>\<close>
  "is_ws c = (ord c = 32 \<or> ord c = 9 \<or> ord c = 12 \<or> ord c = 13 \<or> ord c = 10)"

definition ALPHA_CHAR :: "string \<Rightarrow> bool" where
  "ALPHA_CHAR l = (length l = 1 \<and> list_all is_upper l)"

definition DIGIT :: "string \<Rightarrow> bool" where
  "DIGIT l = (length l = 1 \<and> list_all is_digit l)"

definition CATEGORY_CODE :: "string \<Rightarrow> bool" where
  "CATEGORY_CODE l = (length l = 1 \<and> list_all (\<lambda>c. c \<in> set ''CLMDNTPRSHQB'') l)"

definition IDENTIFIER :: "string \<Rightarrow> bool" where
  "IDENTIFIER l = (length l = 2 \<and> list_all is_digit l)"

definition COMPLEX_IDENTIFIER :: "string \<Rightarrow> bool" where
  "COMPLEX_IDENTIFIER l = (length l = 3 \<and> list_all is_digit l)"

definition TYPE_PREFIX :: "string \<Rightarrow> bool" where
  "TYPE_PREFIX l = ((length l = 2 \<or> length l = 3) \<and> list_all is_upper l)"

definition VERSION_TYPE :: "string \<Rightarrow> bool" where
  "VERSION_TYPE l = (l = ''G'' \<or> l = ''TD'' \<or> l = ''OP'')"

datatype rule_name =
    Pailang | System_with_version | System_id | Version_declaration | Version_components
  | Version_component | Version_number
  | Expression | Assignment_expression | Conditional_expression | Piping_expression
  | Parallel_expression | Sequence_expression | Aggregation_expression | Repetition_expression
  | Atomic_expression | Token_sequence | Bracketed_expression | Batch_operation
  | Context_activation | Token_rule | Standard_token | Complex_token
  | Expressions_comma | Expressions_amp

text \<open>
  One introduction rule per alternative of the grammar. A repetition \<open>x (op x)*\<close> is
  the pair of rules "one \<open>x\<close>" and "what was derived so far, \<open>op\<close>, one more \<open>x\<close>";
  \<open>Expressions_comma\<close>, \<open>Expressions_amp\<close> and \<open>Version_components\<close> name the
  repetitions inside brackets.
\<close>

inductive derives :: "rule_name \<Rightarrow> string list \<Rightarrow> bool" where
  pailang_plain: "derives Expression e \<Longrightarrow> derives Pailang e"
| pailang_system: "derives System_with_version sv \<Longrightarrow> derives Expression e \<Longrightarrow> derives Pailang (sv @ e)"
| system_plain: "derives System_id i \<Longrightarrow> derives System_with_version i"
| system_version: "derives System_id i \<Longrightarrow> derives Version_declaration v
     \<Longrightarrow> derives System_with_version (i @ v)"
| system_id2: "ALPHA_CHAR a \<Longrightarrow> DIGIT d \<Longrightarrow> derives System_id [a, d]"
| system_id3: "ALPHA_CHAR a \<Longrightarrow> DIGIT d \<Longrightarrow> DIGIT d' \<Longrightarrow> derives System_id [a, d, d']"
| version_declaration: "derives Version_components cs
     \<Longrightarrow> derives Version_declaration ([''[''] @ cs @ ['']''])"
| version_components1: "derives Version_component c \<Longrightarrow> derives Version_components c"
| version_components2: "derives Version_components cs \<Longrightarrow> derives Version_component c
     \<Longrightarrow> derives Version_components (cs @ ['',''] @ c)"
| version_component: "VERSION_TYPE t \<Longrightarrow> derives Version_number n
     \<Longrightarrow> derives Version_component ([t, ''-''] @ n)"
| version_number2: "DIGIT a \<Longrightarrow> DIGIT b \<Longrightarrow> derives Version_number [a, ''.'', b]"
| version_number3: "DIGIT a \<Longrightarrow> DIGIT b \<Longrightarrow> DIGIT c
     \<Longrightarrow> derives Version_number [a, ''.'', b, ''.'', c]"
| expression: "derives Assignment_expression a \<Longrightarrow> derives Expression a"
| assignment1: "derives Conditional_expression c \<Longrightarrow> derives Assignment_expression c"
| assignment2: "derives Assignment_expression a \<Longrightarrow> derives Conditional_expression c
     \<Longrightarrow> derives Assignment_expression (a @ [''=''] @ c)"
| conditional1: "derives Piping_expression p \<Longrightarrow> derives Conditional_expression p"
| conditional2: "derives Conditional_expression c \<Longrightarrow> derives Piping_expression t
     \<Longrightarrow> derives Piping_expression f
     \<Longrightarrow> derives Conditional_expression (c @ [''?''] @ t @ ['':''] @ f)"
| piping1: "derives Parallel_expression p \<Longrightarrow> derives Piping_expression p"
| piping2: "derives Piping_expression a \<Longrightarrow> derives Parallel_expression p
     \<Longrightarrow> derives Piping_expression (a @ [''|''] @ p)"
| parallel1: "derives Sequence_expression q \<Longrightarrow> derives Parallel_expression q"
| parallel2: "derives Parallel_expression a \<Longrightarrow> derives Sequence_expression q
     \<Longrightarrow> derives Parallel_expression (a @ [''&''] @ q)"
| sequence1: "derives Aggregation_expression g \<Longrightarrow> derives Sequence_expression g"
| sequence2: "derives Sequence_expression a \<Longrightarrow> derives Aggregation_expression g
     \<Longrightarrow> derives Sequence_expression (a @ [''>''] @ g)"
| aggregation_plain: "derives Repetition_expression r \<Longrightarrow> derives Aggregation_expression r"
| aggregation_hash: "derives Expressions_comma es
     \<Longrightarrow> derives Aggregation_expression ([''#'', ''[''] @ es @ ['']''])"
| repetition_plain: "derives Atomic_expression a \<Longrightarrow> derives Repetition_expression a"
| repetition_count: "derives Atomic_expression a \<Longrightarrow> DIGIT d
     \<Longrightarrow> derives Repetition_expression (a @ [''**'', d])"
| repetition_body: "derives Atomic_expression a \<Longrightarrow> DIGIT d \<Longrightarrow> derives Expression e
     \<Longrightarrow> derives Repetition_expression (a @ [''**'', d, ''[''] @ e @ ['']''])"
| atomic_token: "derives Token_rule t \<Longrightarrow> derives Atomic_expression t"
| atomic_bracketed: "derives Bracketed_expression b \<Longrightarrow> derives Atomic_expression b"
| atomic_batch: "derives Batch_operation b \<Longrightarrow> derives Atomic_expression b"
| atomic_context: "derives Context_activation c \<Longrightarrow> derives Atomic_expression c"
| atomic_sequence: "derives Token_sequence ts \<Longrightarrow> derives Atomic_expression ts"
| token_sequence2: "derives Token_rule a \<Longrightarrow> derives Token_rule b
     \<Longrightarrow> derives Token_sequence (a @ b)"
| token_sequence_more: "derives Token_sequence ts \<Longrightarrow> derives Token_rule b
     \<Longrightarrow> derives Token_sequence (ts @ b)"
| bracketed_expression: "derives Expressions_comma es
     \<Longrightarrow> derives Bracketed_expression ([''[''] @ es @ ['']''])"
| batch_operation: "derives Expressions_amp es
     \<Longrightarrow> derives Batch_operation ([''B'', ''[''] @ es @ ['']''])"
| context_activation: "derives Expression e \<Longrightarrow> derives Token_sequence ts
     \<Longrightarrow> derives Context_activation (e @ [''!''] @ ts)"
| token_standard: "derives Standard_token t \<Longrightarrow> derives Token_rule t"
| token_complex: "derives Complex_token t \<Longrightarrow> derives Token_rule t"
| standard_token: "CATEGORY_CODE c \<Longrightarrow> IDENTIFIER i \<Longrightarrow> derives Standard_token [c, i]"
| complex_token: "TYPE_PREFIX p \<Longrightarrow> CATEGORY_CODE c \<Longrightarrow> COMPLEX_IDENTIFIER i
     \<Longrightarrow> derives Complex_token [p, c, i]"
| expressions_comma1: "derives Expression e \<Longrightarrow> derives Expressions_comma e"
| expressions_comma2: "derives Expressions_comma es \<Longrightarrow> derives Expression e
     \<Longrightarrow> derives Expressions_comma (es @ ['',''] @ e)"
| expressions_amp1: "derives Expression e \<Longrightarrow> derives Expressions_amp e"
| expressions_amp2: "derives Expressions_amp es \<Longrightarrow> derives Expression e
     \<Longrightarrow> derives Expressions_amp (es @ [''&''] @ e)"

text \<open>The lexemes of a string: whitespace may stand before each of them and at the end.\<close>

inductive lexed :: "string \<Rightarrow> string list \<Rightarrow> bool" where
  lexed_end: "list_all is_ws w \<Longrightarrow> lexed w []"
| lexed_lexeme: "list_all is_ws w \<Longrightarrow> lexed rest ls \<Longrightarrow> lexed (w @ l @ rest) (l # ls)"

definition parse_accepts :: "string \<Rightarrow> bool" where
  "parse_accepts s = (\<exists>ls. lexed s ls \<and> derives Pailang ls)"

subsection \<open>Vocabulary for the properties of the parser\<close>

text \<open>
  How a string that an expression rule derives begins: with a bracket, with \<open>#\<close>, or
  with a capital letter followed by a bracket (a batch), by a second capital letter (a
  type prefix), or by two digits (a standard token).
\<close>

fun expr_start :: "string \<Rightarrow> bool" where
  "expr_start (c1 # c2 # c3 # r) =
     (c1 = CHR ''['' \<or> c1 = CHR ''#''
      \<or> (is_upper c1 \<and> (c2 = CHR ''['' \<or> is_upper c2 \<or> (is_digit c2 \<and> is_digit c3))))"
| "expr_start [c1, c2] =
     (c1 = CHR ''['' \<or> c1 = CHR ''#'' \<or> (is_upper c1 \<and> (c2 = CHR ''['' \<or> is_upper c2)))"
| "expr_start [c1] = (c1 = CHR ''['' \<or> c1 = CHR ''#'')"
| "expr_start [] = False"

text \<open>How a system identifier with its optional version begins, and what may follow
  its second character.\<close>

fun system_tail :: "string \<Rightarrow> bool" where
  "system_tail [] = True"
| "system_tail (c # r) = (c = CHR ''['' \<or> (is_digit c \<and> (r = [] \<or> hd r = CHR ''['')))"

fun system_start :: "string \<Rightarrow> bool" where
  "system_start (a # d # r) = (is_upper a \<and> is_digit d \<and> system_tail r)"
| "system_start _ = False"

fun pailang_start :: "string \<Rightarrow> bool" where
  \<comment> \<open>An expression, or a letter and a digit, an optional second digit, and then a
      bracket or an expression.\<close>
  "pailang_start (a # d # r) =
     (expr_start (a # d # r)
      \<or> (is_upper a \<and> is_digit d
          \<and> (expr_start r \<or> (r \<noteq> [] \<and> hd r = CHR ''['')
              \<or> (r \<noteq> [] \<and> is_digit (hd r)
                  \<and> (expr_start (tl r) \<or> (tl r \<noteq> [] \<and> hd (tl r) = CHR ''[''))))))"
| "pailang_start w = expr_start w"

definition shape :: "rule_name \<Rightarrow> string \<Rightarrow> bool" where
  "shape rule w =
     (if rule = Pailang then pailang_start w
      else if rule = System_with_version then system_start w
      else if rule = System_id
        then (\<exists>a d r. w = a # d # r \<and> is_upper a \<and> is_digit d
                       \<and> (r = [] \<or> (length r = 1 \<and> list_all is_digit r)))
      else if rule = Version_declaration then (w \<noteq> [] \<and> hd w = CHR ''['')
      else if rule \<in> {Version_components, Version_component, Version_number} then True
      else expr_start w)"

section \<open>Context manager (decoder/context_manager.py)\<close>

text \<open>
  Token definitions, contexts and modifiers are dictionaries of JSON values. The
  docstrings type the token, the token dictionary, the token definition and the contexts
  as \<open>dict\<close>; what is nested in them is a value of any kind, and an operation that
  Python refuses on a value of the wrong kind is an error of the model. Equality of values
  is structural.
\<close>

datatype pyval =
    PNone
  | PBool bool
  | PInt int
  | PStr string
  | PList "pyval list"
  | PDict "(string \<times> pyval) list"

type_synonym dict = "pyval pydict"

definition dict_get :: "dict \<Rightarrow> string \<Rightarrow> pyval" where
  \<comment> \<open>\<open>d.get(key)\<close>: \<open>None\<close> for a missing key.\<close>
  "dict_get d k = (case map_of d k of None \<Rightarrow> PNone | Some v \<Rightarrow> v)"

definition dict_get_default :: "dict \<Rightarrow> string \<Rightarrow> pyval \<Rightarrow> pyval" where
  \<comment> \<open>\<open>d.get(key, default)\<close>\<close>
  "dict_get_default d k dflt = (case map_of d k of None \<Rightarrow> dflt | Some v \<Rightarrow> v)"

fun py_in :: "pyval \<Rightarrow> pyval \<Rightarrow> py_error + bool" where
  \<comment> \<open>\<open>x in container\<close>: a key test on a dictionary (an unhashable key raises), membership
      in a list, a substring test on a string.\<close>
  "py_in (PStr k) (PDict d) = Inr (k \<in> fst ` set d)"
| "py_in (PList _) (PDict d) = Inl TypeError"
| "py_in (PDict _) (PDict d) = Inl TypeError"
| "py_in _ (PDict d) = Inr False"
| "py_in x (PList xs) = Inr (x \<in> set xs)"
| "py_in (PStr t) (PStr s) = Inr (is_substring t s)"
| "py_in _ _ = Inl TypeError"

definition list_index :: "'a list \<Rightarrow> int \<Rightarrow> py_error + 'a" where
  \<comment> \<open>\<open>xs[i]\<close>, where \<open>-1\<close> is the last position.\<close>
  "list_index xs i =
     (if 0 \<le> i \<and> i < int (length xs) then Inr (xs ! nat i)
      else if i < 0 \<and> - int (length xs) \<le> i then Inr (xs ! nat (int (length xs) + i))
      else Inl IndexError)"

fun py_index :: "pyval \<Rightarrow> pyval \<Rightarrow> py_error + pyval" where
  \<comment> \<open>\<open>container[key]\<close>\<close>
  "py_index (PDict d) (PStr k) = (case map_of d k of None \<Rightarrow> Inl KeyError | Some v \<Rightarrow> Inr v)"
| "py_index (PDict d) (PList _) = Inl TypeError"
| "py_index (PDict d) (PDict _) = Inl TypeError"
| "py_index (PDict d) _ = Inl KeyError"
| "py_index (PList xs) (PInt i) = list_index xs i"
| "py_index (PList xs) (PBool b) = list_index xs (if b then 1 else 0)"
| "py_index (PStr s) (PInt i) = map_sum id (\<lambda>c. PStr [c]) (list_index s i)"
| "py_index (PStr s) (PBool b) = map_sum id (\<lambda>c. PStr [c]) (list_index s (if b then 1 else 0))"
| "py_index _ _ = Inl TypeError"

subsection \<open>The context stack\<close>

text \<open>The stack is the Python list: \<open>append\<close> pushes at the end, index 0 is the bottom.\<close>

definition activate_context :: "dict \<Rightarrow> dict list \<Rightarrow> dict list" where
  "activate_context context context_stack = context_stack @ [context]"

definition deactivate_context :: "dict list \<Rightarrow> dict option \<times> dict list" where
  "deactivate_context context_stack =
     (if context_stack \<noteq> [] then (Some (last context_stack), butlast context_stack)
      else (None, context_stack))"

definition get_current_context :: "dict list \<Rightarrow> dict option" where
  "get_current_context context_stack =
     (if context_stack \<noteq> [] then Some (last context_stack) else None)"

subsection \<open>Applying a modifier\<close>

definition dict_update :: "dict \<Rightarrow> dict \<Rightarrow> dict" where
  \<comment> \<open>\<open>d.update(other)\<close>: every item of \<open>other\<close> is assigned into \<open>d\<close>.\<close>
  "dict_update d other = foldl (\<lambda>acc (k, v). AList.update k v acc) d other"

definition extend_item :: "dict \<Rightarrow> string \<times> pyval \<Rightarrow> dict" where
  \<comment> \<open>The body of the loop under \<open>key == 'extend'\<close> for one item of the extension.\<close>
  "extend_item modified_def item =
     (case item of (prop_key, prop_value) \<Rightarrow>
        (case map_of modified_def prop_key of
           None \<Rightarrow> AList.update prop_key prop_value modified_def
         | Some (PDict old) \<Rightarrow>
             (case prop_value of
                PDict new \<Rightarrow> AList.update prop_key (PDict (dict_update old new)) modified_def
              | _ \<Rightarrow> AList.update prop_key prop_value modified_def)
         | Some (PList old) \<Rightarrow>
             (case prop_value of
                PList new \<Rightarrow> AList.update prop_key (PList (old @ new)) modified_def
              | _ \<Rightarrow> AList.update prop_key prop_value modified_def)
         | Some _ \<Rightarrow> AList.update prop_key prop_value modified_def))"

definition modify_item :: "dict \<Rightarrow> string \<times> pyval \<Rightarrow> dict" where
  \<comment> \<open>The body of the loop under \<open>key == 'modify'\<close>.\<close>
  "modify_item modified_def item =
     (case item of (prop_key, prop_value) \<Rightarrow>
        if prop_key \<in> fst ` set modified_def then AList.update prop_key prop_value modified_def
        else modified_def)"

fun apply_modifier_items :: "dict \<Rightarrow> dict \<Rightarrow> py_error + pyval" where
  \<comment> \<open>The loop \<open>for key, value in modifier.items()\<close> over the remaining items, with the
      copy of the definition built so far.\<close>
  "apply_modifier_items modified_def [] = Inr (PDict modified_def)"
| "apply_modifier_items modified_def ((key, value) # items) =
     (if key = ''override'' then Inr value
      else if key = ''extend'' then
        (case value of
           PDict ext \<Rightarrow> apply_modifier_items (foldl extend_item modified_def ext) items
         | _ \<Rightarrow> Inl AttributeError)
      else if key = ''modify'' then
        (case value of
           PDict changes \<Rightarrow> apply_modifier_items (foldl modify_item modified_def changes) items
         | _ \<Rightarrow> Inl AttributeError)
      else apply_modifier_items modified_def items)"

definition apply_context_modifier :: "dict \<Rightarrow> pyval \<Rightarrow> py_error + pyval" where
  \<comment> \<open>\<open>_apply_context_modifier\<close>. The copy is shallow: \<open>update\<close> and \<open>extend\<close> also
      change the nested containers of the definition held by the token dictionary; the
      model returns the resolved definition.\<close>
  "apply_context_modifier token_def modifier =
     (case modifier of
        PDict items \<Rightarrow> apply_modifier_items token_def items
      | _ \<Rightarrow> Inl AttributeError)"

subsection \<open>Resolving a token\<close>

definition modifier_for :: "dict \<Rightarrow> pyval \<Rightarrow> py_error + pyval option" where
  \<comment> \<open>The two tests of the loop body of \<open>resolve_in_context\<close> for one context: the
      modifier the context carries for the category, if any.\<close>
  "modifier_for ctx category =
     (let ctx_def = dict_get_default ctx ''definition'' (PDict [])
      in case py_in (PStr ''tokenModifiers'') ctx_def of
           Inl e \<Rightarrow> Inl e
         | Inr False \<Rightarrow> Inr None
         | Inr True \<Rightarrow>
            (case py_index ctx_def (PStr ''tokenModifiers'') of
               Inl e \<Rightarrow> Inl e
             | Inr mods \<Rightarrow>
                (case py_in category mods of
                   Inl e \<Rightarrow> Inl e
                 | Inr False \<Rightarrow> Inr None
                 | Inr True \<Rightarrow>
                    (case py_index mods category of
                       Inl e \<Rightarrow> Inl e
                     | Inr modifier \<Rightarrow> Inr (Some modifier)))))"

fun scan_contexts :: "dict list \<Rightarrow> pyval \<Rightarrow> dict \<Rightarrow> py_error + pyval" where
  \<comment> \<open>\<open>for ctx in self.context_stack\<close>: from index 0 on, returning at the first context
      that carries a modifier for the category.\<close>
  "scan_contexts [] category token_def = Inr (PDict token_def)"
| "scan_contexts (ctx # rest) category token_def =
     (case modifier_for ctx category of
        Inl e \<Rightarrow> Inl e
      | Inr (Some modifier) \<Rightarrow> apply_context_modifier token_def modifier
      | Inr None \<Rightarrow> scan_contexts rest category token_def)"

definition lookup_definition :: "dict pydict \<Rightarrow> pyval \<Rightarrow> py_error + dict" where
  \<comment> \<open>\<open>token_dictionary.get(token_value, {})\<close>\<close>
  "lookup_definition token_dictionary token_value =
     (case token_value of
        PStr v \<Rightarrow> Inr (case map_of token_dictionary v of None \<Rightarrow> [] | Some d \<Rightarrow> d)
      | PList _ \<Rightarrow> Inl TypeError
      | PDict _ \<Rightarrow> Inl TypeError
      | _ \<Rightarrow> Inr [])"

definition context_behavior :: "dict \<Rightarrow> pyval \<Rightarrow> py_error + pyval option" where
  \<comment> \<open>The test \<open>'contextBehaviors' in token_def and context_id in
      token_def['contextBehaviors']\<close> and the value returned when it holds.\<close>
  "context_behavior token_def context_id =
     (case map_of token_def ''contextBehaviors'' of
        None \<Rightarrow> Inr None
      | Some behaviors \<Rightarrow>
         (case py_in context_id behaviors of
            Inl e \<Rightarrow> Inl e
          | Inr False \<Rightarrow> Inr None
          | Inr True \<Rightarrow>
             (case py_index behaviors context_id of
                Inl e \<Rightarrow> Inl e
              | Inr v \<Rightarrow> Inr (Some v))))"

definition resolve_in_context :: "dict list \<Rightarrow> dict \<Rightarrow> dict pydict \<Rightarrow> py_error + pyval" where
  "resolve_in_context context_stack token token_dictionary =
     (case lookup_definition token_dictionary (dict_get token ''value'') of
        Inl e \<Rightarrow> Inl e
      | Inr token_def \<Rightarrow>
         (case get_current_context context_stack of
            None \<Rightarrow> Inr (PDict token_def)
          | Some active_context \<Rightarrow>
              if active_context = [] then Inr (PDict token_def)
              else
                (case context_behavior token_def (dict_get active_context ''id'') of
                   Inl e \<Rightarrow> Inl e
                 | Inr (Some v) \<Rightarrow> Inr v
                 | Inr None \<Rightarrow>
                     scan_contexts context_stack (dict_get token ''categoryCode'') token_def)))"


subsection \<open>Vocabulary for the properties of the context manager\<close>

text \<open>Two contexts that carry an \<open>override\<close> for the category \<open>T\<close>, the system context
  as \<open>initialize_system_context\<close> builds it, and a task token as the parser builds it.\<close>

definition system_context :: dict where
  "system_context =
     [(''id'', PStr ''SYSTEM''), (''systemId'', PNone), (''versions'', PDict []),
      (''properties'', PDict [])]"

definition outer_context :: dict where
  "outer_context =
     [(''id'', PStr ''C01''),
      (''definition'', PDict [(''tokenModifiers'',
          PDict [(''T'', PDict [(''override'', PStr ''outer_definition'')])])]),
      (''properties'', PDict [])]"

definition inner_context :: dict where
  "inner_context =
     [(''id'', PStr ''C02''),
      (''definition'', PDict [(''tokenModifiers'',
          PDict [(''T'', PDict [(''override'', PStr ''inner_definition'')])])]),
      (''properties'', PDict [])]"

definition task_token :: dict where
  "task_token = [(''type'', PStr ''StandardToken''), (''categoryCode'', PStr ''T''),
                 (''identifier'', PStr ''12''), (''value'', PStr ''T12'')]"

text \<open>The value a key of the definition holds after the \<open>extend\<close> loop has handled an
  item for it: \<open>old\<close> is what the definition held before, if anything.\<close>

fun extend_value :: "pyval option \<Rightarrow> pyval \<Rightarrow> pyval" where
  "extend_value (Some (PDict old)) (PDict new) = PDict (dict_update old new)"
| "extend_value (Some (PList old)) (PList new) = PList (old @ new)"
| "extend_value _ prop_value = prop_value"

definition base_definition :: dict where
  "base_definition =
     [(''timeout'', PInt 30), (''tags'', PList [PStr ''a'']), (''limits'', PDict [(''cpu'', PInt 1)])]"

definition extension :: dict where
  "extension =
     [(''timeout'', PInt 60), (''limits'', PDict [(''cpu'', PInt 4)]), (''tags'', PList [PStr ''b'']),
      (''retries'', PInt 3)]"

section \<open>Properties of the token ID generator\<close>

subsection \<open>Decimal formatting\<close>

lemma digit_char_0: "digit_char 0 = CHR ''0''"
proof -
  have "(of_char CHR ''0'' :: nat) = 48" by simp
  then have "char_of (48::nat) = CHR ''0''" by (metis char_of_char)
  then show ?thesis by (simp add: digit_char_def)
qed

lemma ord_digit_char: "d < 10 \<Longrightarrow> ord (digit_char d) = 48 + d"
  by (simp add: ord_def digit_char_def)

lemma is_digit_digit_char: "d < 10 \<Longrightarrow> is_digit (digit_char d)"
  by (simp add: is_digit_def ord_digit_char)

lemma digit_val_digit_char: "d < 10 \<Longrightarrow> digit_val (digit_char d) = d"
  by (simp add: digit_val_def ord_digit_char)

lemma digit_char_inj: "a < 10 \<Longrightarrow> b < 10 \<Longrightarrow> digit_char a = digit_char b \<Longrightarrow> a = b"
  by (metis digit_val_digit_char)

lemma zfill2_lt100:
  assumes "n < 100"
  shows "zfill2 n = [digit_char (n div 10), digit_char (n mod 10)]"
proof (cases "n < 10")
  case True
  have "str_nat n = [digit_char n]" using True by (subst str_nat.simps) simp
  with True show ?thesis by (simp add: zfill2_def digit_char_0)
next
  case False
  with assms have d: "n div 10 < 10" by simp
  have "str_nat (n div 10) = [digit_char (n div 10)]" using d by (subst str_nat.simps) simp
  moreover have "str_nat n = str_nat (n div 10) @ [digit_char (n mod 10)]"
    using False by (subst str_nat.simps) simp
  ultimately show ?thesis using False by (simp add: zfill2_def)
qed

lemma zfill2_two_digits: "n < 100 \<Longrightarrow> length (zfill2 n) = 2 \<and> list_all is_digit (zfill2 n)"
  by (simp add: zfill2_lt100 is_digit_digit_char)

lemma int_of_str_zfill2: "n < 100 \<Longrightarrow> int_of_str (zfill2 n) = n"
  by (simp add: zfill2_lt100 int_of_str_def digit_val_digit_char)

lemma zfill2_inj: "a < 100 \<Longrightarrow> b < 100 \<Longrightarrow> zfill2 a = zfill2 b \<Longrightarrow> a = b"
  by (metis int_of_str_zfill2)

lemma probe_free: "zfill2 t \<notin> set taken \<Longrightarrow> probe uuid k taken start t = Some t"
  by (simp add: probe.simps)

lemma probe_sound:
  assumes ret: "probe uuid k taken start t = Some r"
  shows "1 \<le> t \<and> t \<le> 99 \<longrightarrow> 1 \<le> r \<and> r \<le> 99 \<and> zfill2 r \<notin> set taken"
proof (rule probe.raw_induct
    [where P = "\<lambda>uuid k taken start t r. 1 \<le> t \<and> t \<le> 99 \<longrightarrow> 1 \<le> r \<and> r \<le> 99 \<and> zfill2 r \<notin> set taken",
      OF _ ret])
  fix f uuid k taken start t r
  assume IH: "\<And>uuid k taken start t r. f uuid k taken start t = Some r \<Longrightarrow>
                1 \<le> t \<and> t \<le> 99 \<longrightarrow> 1 \<le> r \<and> r \<le> 99 \<and> zfill2 r \<notin> set taken"
    and eq: "(if zfill2 t \<in> set taken
              then let t' = t mod 99 + 1
                   in if t' = start then f uuid (Suc k) taken start (uuid k mod 99 + 1)
                      else f uuid k taken start t'
              else Some t) = Some r"
  show "1 \<le> t \<and> t \<le> 99 \<longrightarrow> 1 \<le> r \<and> r \<le> 99 \<and> zfill2 r \<notin> set taken"
  proof (cases "zfill2 t \<in> set taken")
    case False
    with eq show ?thesis by simp
  next
    case True
    show ?thesis
    proof (cases "t mod 99 + 1 = start")
      case True
      with \<open>zfill2 t \<in> set taken\<close> eq
      have "f uuid (Suc k) taken start (uuid k mod 99 + 1) = Some r" by (simp add: Let_def)
      from IH [OF this] show ?thesis by simp
    next
      case False
      with \<open>zfill2 t \<in> set taken\<close> eq
      have "f uuid k taken start (t mod 99 + 1) = Some r" by (simp add: Let_def)
      from IH [OF this] show ?thesis by simp
    qed
  qed
qed

subsection \<open>The collision loop\<close>

lemma probe_never_returns:
  assumes ret: "probe uuid k taken start t = Some r"
  shows "\<not> (saturated taken \<and> 1 \<le> t \<and> t \<le> 99)"
proof (rule probe.raw_induct
    [where P = "\<lambda>uuid k taken start t r. \<not> (saturated taken \<and> 1 \<le> t \<and> t \<le> 99)", OF _ ret])
  fix f uuid k taken start t r
  assume IH: "\<And>uuid k taken start t r. f uuid k taken start t = Some r \<Longrightarrow>
                \<not> (saturated taken \<and> 1 \<le> t \<and> t \<le> 99)"
    and eq: "(if zfill2 t \<in> set taken
              then let t' = t mod 99 + 1
                   in if t' = start then f uuid (Suc k) taken start (uuid k mod 99 + 1)
                      else f uuid k taken start t'
              else Some t) = Some r"
  show "\<not> (saturated taken \<and> 1 \<le> t \<and> t \<le> 99)"
  proof
    assume sat: "saturated taken \<and> 1 \<le> t \<and> t \<le> 99"
    then have mem: "zfill2 t \<in> set taken"
      by (auto simp: saturated_def list_all_iff)
    show False
    proof (cases "t mod 99 + 1 = start")
      case True
      with mem eq have "f uuid (Suc k) taken start (uuid k mod 99 + 1) = Some r"
        by (simp add: Let_def)
      from IH [OF this] sat show False by simp
    next
      case False
      with mem eq have "f uuid k taken start (t mod 99 + 1) = Some r" by (simp add: Let_def)
      from IH [OF this] sat show False by simp
    qed
  qed
qed

lemma probe_saturated:
  "saturated taken \<Longrightarrow> 1 \<le> t \<Longrightarrow> t \<le> 99 \<Longrightarrow> probe uuid k taken start t = None"
  using probe_never_returns [of uuid k taken start t] by (cases "probe uuid k taken start t") auto

lemma probe_reaches:
  "(step ^^ d) t = f \<Longrightarrow> zfill2 f \<notin> set taken \<Longrightarrow> (\<forall>i<d. (step ^^ Suc i) t \<noteq> start)
   \<Longrightarrow> \<exists>r. probe uuid k taken start t = Some r"
proof (induction d arbitrary: t)
  case 0
  then show ?case by (simp add: probe_free)
next
  case (Suc d)
  show ?case
  proof (cases "zfill2 t \<in> set taken")
    case False
    then show ?thesis by (simp add: probe_free)
  next
    case True
    from Suc.prems(1) have a: "(step ^^ d) (step t) = f" by (simp add: funpow_swap1)
    from Suc.prems(3) have ns: "step t \<noteq> start" by auto
    have far: "\<forall>i<d. (step ^^ Suc i) (step t) \<noteq> start"
    proof (intro allI impI)
      fix i assume "i < d"
      then have "(step ^^ Suc (Suc i)) t \<noteq> start" using Suc.prems(3) by auto
      then show "(step ^^ Suc i) (step t) \<noteq> start" by (simp add: funpow_swap1)
    qed
    from Suc.IH [OF a Suc.prems(2) far]
    obtain r where "probe uuid k taken start (step t) = Some r" by blast
    with True ns show ?thesis by (subst probe.simps) (simp add: Let_def step_def)
  qed
qed

lemma small_mod: "x < 198 \<Longrightarrow> (x::nat) mod 99 = (if x < 99 then x else x - 99)"
  by (simp add: mod_if)

lemma funpow_step: "1 \<le> t \<Longrightarrow> t \<le> 99 \<Longrightarrow> (step ^^ i) t = (t - 1 + i) mod 99 + 1"
proof (induction i)
  case 0
  then show ?case by simp
next
  case (Suc i)
  have "Suc ((t - 1 + i) mod 99) mod 99 = Suc (t - 1 + i) mod 99" by (rule mod_Suc_eq)
  with Suc show ?case by (simp add: step_def)
qed

lemma cycle_reaches:
  assumes "1 \<le> start" "start \<le> 99" "1 \<le> f" "f \<le> 99"
  shows "\<exists>d. (step ^^ d) start = f \<and> (\<forall>i<d. (step ^^ Suc i) start \<noteq> start)"
proof -
  define d where "d = (if start \<le> f then f - start else f + 99 - start)"
  have d98: "d \<le> 98" using assms unfolding d_def by auto
  have "(start - 1 + d) mod 99 + 1 = f"
    using assms by (simp add: d_def small_mod)
  then have 1: "(step ^^ d) start = f" using assms by (simp add: funpow_step)
  have 2: "\<forall>i<d. (step ^^ Suc i) start \<noteq> start"
  proof (intro allI impI)
    fix i assume "i < d"
    with d98 have "Suc i \<le> 98" by simp
    then have "(start - 1 + Suc i) mod 99 + 1 \<noteq> start"
      using assms by (auto simp: small_mod)
    then show "(step ^^ Suc i) start \<noteq> start"
      unfolding funpow_step [OF assms(1,2)] .
  qed
  from 1 2 show ?thesis by blast
qed

lemma free_id_exists:
  assumes "length (two_digit_ids reg c) < 99"
  shows "\<exists>f. 1 \<le> f \<and> f \<le> 99 \<and> zfill2 f \<notin> set (taken_ids reg c)"
proof (rule ccontr)
  assume "\<not> ?thesis"
  then have all: "\<And>f. 1 \<le> f \<Longrightarrow> f \<le> 99 \<Longrightarrow> zfill2 f \<in> set (taken_ids reg c)" by blast
  have sub: "zfill2 ` {1..99} \<subseteq> set (two_digit_ids reg c)"
  proof
    fix x assume "x \<in> zfill2 ` {1..99}"
    then obtain f where f: "x = zfill2 f" "1 \<le> f" "f \<le> 99" by auto
    then have "is_two_digit x" using zfill2_two_digits [of f] by (simp add: is_two_digit_def)
    with all [OF f(2,3)] f(1) show "x \<in> set (two_digit_ids reg c)"
      by (simp add: two_digit_ids_def)
  qed
  have "inj_on zfill2 {1..99}"
    by (rule inj_onI) (auto intro: zfill2_inj)
  then have "card (zfill2 ` {1..99}) = 99" by (simp add: card_image)
  with sub have "99 \<le> card (set (two_digit_ids reg c))"
    by (metis card_mono List.finite_set)
  moreover have "card (set (two_digit_ids reg c)) = length (two_digit_ids reg c)"
    unfolding two_digit_ids_def by (rule distinct_card) simp
  ultimately show False using assms by simp
qed

lemma probe_total:
  assumes "length (two_digit_ids reg c) < 99" "1 \<le> start" "start \<le> 99"
  shows "\<exists>r. probe uuid k (taken_ids reg c) start start = Some r \<and> 1 \<le> r \<and> r \<le> 99
            \<and> zfill2 r \<notin> set (taken_ids reg c)"
proof -
  from free_id_exists [OF assms(1)] obtain f
    where f: "1 \<le> f" "f \<le> 99" "zfill2 f \<notin> set (taken_ids reg c)" by blast
  from cycle_reaches [OF assms(2,3) f(1,2)] obtain d
    where d: "(step ^^ d) start = f" "\<forall>i<d. (step ^^ Suc i) start \<noteq> start" by blast
  from probe_reaches [OF d(1) f(3) d(2)] obtain r
    where r: "probe uuid k (taken_ids reg c) start start = Some r" by blast
  from probe_sound [OF r] assms(2,3) r show ?thesis by blast
qed

subsection \<open>Termination of identifier generation\<close>

lemma generate_new_token_id_total:
  assumes "value \<noteq> []" and "length (two_digit_ids (token_registry g) category) < 99"
  shows "\<exists>r g'. generate_new_token_id seed_of uuid value category g = Some (zfill2 r, g')
            \<and> 1 \<le> r \<and> r \<le> 99 \<and> zfill2 r \<notin> set (taken_ids (token_registry g) category)"
proof -
  let ?start = "(seed_of value + counter_of g category) mod 99 + 1"
  have "1 \<le> ?start" "?start \<le> 99" by simp_all
  from probe_total [OF assms(2) this] obtain r
    where r: "probe uuid 0 (taken_ids (token_registry g) category) ?start ?start = Some r"
      "1 \<le> r" "r \<le> 99" "zfill2 r \<notin> set (taken_ids (token_registry g) category)" by blast
  from r(1) assms(1) have "\<exists>g'. generate_new_token_id seed_of uuid value category g = Some (zfill2 r, g')"
    by (simp add: generate_new_token_id_def Let_def)
  with r(2,3,4) show ?thesis by blast
qed

text \<open>
  Claim C10. A call of \<open>_generate_new_token_id\<close> with a non-empty normalised value,
  made while the category holds fewer than 99 distinct two-digit numeric identifiers,
  leaves the collision loop and returns a two-digit identifier.
\<close>

theorem generate_new_token_id_terminates:
  assumes "value \<noteq> []" and "length (two_digit_ids (token_registry g) category) < 99"
  shows "\<exists>token_id g'. generate_new_token_id seed_of uuid value category g = Some (token_id, g')
            \<and> is_two_digit token_id"
proof -
  from generate_new_token_id_total [OF assms] obtain r g'
    where ret: "generate_new_token_id seed_of uuid value category g = Some (zfill2 r, g')"
      and r: "1 \<le> r" "r \<le> 99" by blast
  from r have "is_two_digit (zfill2 r)"
    using zfill2_two_digits [of r] by (simp add: is_two_digit_def)
  with ret show ?thesis by blast
qed

theorem generate_new_token_id_terminates_witness:
  "''abc'' \<noteq> [] \<and>
   length (two_digit_ids (token_registry (sample_generator sample_registry)) ''task'') < 99 \<and>
   (\<exists>token_id g'. generate_new_token_id sha256_seed (\<lambda>k. 0) ''abc'' ''task''
        (sample_generator sample_registry) = Some (token_id, g')
            \<and> is_two_digit token_id)"
proof -
  have h: "length (two_digit_ids (token_registry (sample_generator sample_registry)) ''task'') < 99"
    by (simp add: sample_generator_def sample_registry_def two_digit_ids_def taken_ids_def)
  have n: "''abc'' \<noteq> []" by simp
  from generate_new_token_id_terminates [OF n h] h show ?thesis by simp
qed

subsection \<open>Malformed tokens\<close>

lemma category_of_prefix_None:
  "category_of_prefix p = None \<longleftrightarrow> p \<notin> set (map snd category_prefixes)"
  by (auto simp: category_of_prefix_def category_prefixes_def)

text \<open>
  Claim C8. For a token string that is empty, shorter than two characters, or whose first
  character is not the prefix of any category, \<open>get_value_from_token\<close> returns
  \<open>(None, None)\<close>; the function has no raising path on strings.
\<close>

theorem get_value_from_token_malformed:
  "length token < 2 \<or> [hd token] \<notin> set (map snd category_prefixes)
   \<Longrightarrow> get_value_from_token g token = (None, None)"
proof (cases "length token < 2")
  case True
  then show ?thesis by (simp add: get_value_from_token_def)
next
  case False
  moreover assume "length token < 2 \<or> [hd token] \<notin> set (map snd category_prefixes)"
  ultimately have "[hd token] \<notin> set (map snd category_prefixes)" by blast
  then have "category_of_prefix [hd token] = None" by (rule category_of_prefix_None [THEN iffD2])
  then show ?thesis by (simp add: get_value_from_token_def)
qed

theorem get_value_from_token_malformed_witness:
  "length ([] :: string) < 2 \<and> get_value_from_token (sample_generator []) [] = (None, None) \<and>
   length ''T'' < 2 \<and> get_value_from_token (sample_generator []) ''T'' = (None, None) \<and>
   [hd ''X12''] \<notin> set (map snd category_prefixes) \<and>
   get_value_from_token (sample_generator [(''task'', [(''x'', ''12'')])]) ''X12'' = (None, None)"
proof -
  have a: "length ([] :: string) < 2 \<or> [hd ([] :: string)] \<notin> set (map snd category_prefixes)" by simp
  have b: "length ''T'' < 2 \<or> [hd ''T''] \<notin> set (map snd category_prefixes)" by simp
  have c: "[hd ''X12''] \<notin> set (map snd category_prefixes)"
    by (simp add: category_prefixes_def)
  then have c': "length ''X12'' < 2 \<or> [hd ''X12''] \<notin> set (map snd category_prefixes)" by simp
  show ?thesis
    using get_value_from_token_malformed [OF a] get_value_from_token_malformed [OF b]
      get_value_from_token_malformed [OF c'] c
    by simp
qed

subsection \<open>Determinism of identifier generation\<close>

lemma normalize_initialize_system: "normalize_value ''initialize_system'' = ''initialize_system''"
  by (simp add: normalize_value_def lower_def lower_char_def ord_def is_word_def is_space_def
      is_digit_def)

lemma lower_system: "lower ''system'' = ''system''"
  by (simp add: lower_def lower_char_def ord_def)

lemma map_of_empty_document:
  "empty_document reg \<Longrightarrow> map_of reg c = None \<or> map_of reg c = Some []"
  by (induction reg) (auto simp: empty_document_def)

lemma lookup_token_empty_document: "empty_document reg \<Longrightarrow> lookup_token reg c v = None"
  using map_of_empty_document [of reg c] by (auto simp: lookup_token_def)

lemma taken_ids_empty_document: "empty_document reg \<Longrightarrow> taken_ids reg c = []"
  using map_of_empty_document [of reg c] by (auto simp: taken_ids_def)

lemma update_same: "map_of cs c = Some n \<Longrightarrow> AList.update c n cs = cs"
  by (induction cs) auto

lemma counter_step_empty:
  assumes "list_all (\<lambda>(c, n). n = 1) cs"
  shows "counter_step cs (c, []) = cs"
proof (cases "c \<in> fst ` set cs")
  case True
  then obtain n where n: "map_of cs c = Some n" by (metis domD dom_map_of_conv_image_fst)
  with assms have "n = 1" by (auto simp: list_all_iff dest: map_of_SomeD)
  with n True show ?thesis by (simp add: counter_step_def max_id_def update_same)
next
  case False
  then show ?thesis by (simp add: counter_step_def)
qed

lemma counters_empty_document_aux:
  "empty_document reg \<Longrightarrow> list_all (\<lambda>(c, n). n = 1) cs \<Longrightarrow> foldl counter_step cs reg = cs"
proof (induction reg)
  case Nil
  then show ?case by simp
next
  case (Cons a reg)
  obtain c toks where a: "a = (c, toks)" by (cases a)
  with Cons.prems have toks: "toks = []" and rest: "empty_document reg"
    by (simp_all add: empty_document_def)
  from Cons.prems(2) have "counter_step cs (c, []) = cs" by (rule counter_step_empty)
  with Cons.IH [OF rest Cons.prems(2)] a toks show ?case by simp
qed

lemma counters_empty_document:
  "empty_document reg \<Longrightarrow> initialize_category_counters reg initial_counters = initial_counters"
  unfolding initialize_category_counters_def
  by (rule counters_empty_document_aux) (simp_all add: initial_counters_def category_prefixes_def)

lemma lookup_store_token:
  "lookup_token (store_token c' v' i reg) c v =
     (if c' = c \<and> v' = v then Some i else lookup_token reg c v)"
  by (auto simp: lookup_token_def store_token_def update_conv' map_of_append
      split: option.splits dest: map_of_SomeD)


lemma generate_token_id_existing:
  assumes "lookup_token (token_registry g) (lower c) (normalize_value v) = Some i"
  shows "generate_token_id seed_of uuid io_ok v c g fs =
           Some ((case map_of category_prefixes (lower c) of None \<Rightarrow> ''D'' | Some p \<Rightarrow> p) @ i, g, fs)"
  using assms by (simp add: generate_token_id_def Let_def)

lemma generate_new_token_id_registry:
  "generate_new_token_id seed_of uuid v c g = Some (i, g1)
   \<Longrightarrow> token_registry g1 = token_registry g \<and> token_registry_path g1 = token_registry_path g"
  by (auto simp: generate_new_token_id_def Let_def split: option.splits if_splits)

lemma generate_token_id_new:
  assumes "lookup_token (token_registry g) (lower c) (normalize_value v) = None"
    and "generate_token_id seed_of uuid io_ok v c g fs = Some (tok, g', fs')"
  shows "\<exists>i g1. generate_new_token_id seed_of uuid (normalize_value v) (lower c) g = Some (i, g1)
            \<and> tok = (case map_of category_prefixes (lower c) of None \<Rightarrow> ''D'' | Some p \<Rightarrow> p) @ i
            \<and> token_registry g' = store_token (lower c) (normalize_value v) i (token_registry g)
            \<and> token_registry_path g' = token_registry_path g
            \<and> fs' = save_token_registry io_ok g' fs"
proof -
  from assms obtain i g1
    where new: "generate_new_token_id seed_of uuid (normalize_value v) (lower c) g = Some (i, g1)"
    by (auto simp: generate_token_id_def Let_def split: option.splits)
  from generate_new_token_id_registry [OF new]
  have same: "token_registry g1 = token_registry g" "token_registry_path g1 = token_registry_path g"
    by simp_all
  from assms new same show ?thesis
    by (auto simp: generate_token_id_def Let_def split: option.splits)
qed

lemma generate_token_id_keeps:
  assumes "generate_token_id seed_of uuid io_ok v c g fs = Some (tok, g', fs')"
    and "lookup_token (token_registry g) c0 v0 = Some i0"
  shows "lookup_token (token_registry g') c0 v0 = Some i0
         \<and> token_registry_path g' = token_registry_path g
         \<and> (fs' = fs \<or> fs' = save_token_registry True g' fs)"
proof (cases "lookup_token (token_registry g) (lower c) (normalize_value v)")
  case (Some i)
  from generate_token_id_existing [OF this, of seed_of uuid io_ok fs] assms show ?thesis by simp
next
  case None
  from generate_token_id_new [OF None assms(1)] obtain i
    where reg: "token_registry g' = store_token (lower c) (normalize_value v) i (token_registry g)"
      and path: "token_registry_path g' = token_registry_path g"
      and fs': "fs' = save_token_registry io_ok g' fs" by blast
  from None assms(2) have "\<not> (lower c = c0 \<and> normalize_value v = v0)" by auto
  with reg assms(2) have "lookup_token (token_registry g') c0 v0 = Some i0"
    by (auto simp: lookup_store_token)
  moreover from fs' have "fs' = fs \<or> fs' = save_token_registry True g' fs"
    by (cases io_ok) (simp_all add: save_token_registry_def)
  ultimately show ?thesis using path by simp
qed


lemma generate_first:
  assumes "empty_document reg"
  shows "\<exists>g1. generate_token_id seed_of uuid io_ok ''initialize_system'' ''system''
                 \<lparr>token_registry_path = Some path, token_registry = reg,
                  category_counters = initial_counters\<rparr> fs
               = Some (''S'' @ first_id seed_of ''initialize_system'', g1, save_token_registry io_ok g1 fs)
             \<and> token_registry_path g1 = Some path
             \<and> lookup_token (token_registry g1) ''system'' ''initialize_system''
                 = Some (first_id seed_of ''initialize_system'')"
  using assms
  by (simp add: generate_token_id_def generate_new_token_id_def Let_def normalize_initialize_system
      lower_system lookup_token_empty_document taken_ids_empty_document probe_free
      initial_counters_def category_prefixes_def lookup_store_token first_id_def counter_of_def)

lemma generate_all_keeps:
  "generate_all seed_of calls g fs = Some (g', fs') \<Longrightarrow> token_registry_path g = Some path
   \<Longrightarrow> lookup_token (token_registry g) c0 v0 = Some i0
   \<Longrightarrow> fs path = Some reg \<or> (\<exists>r. fs path = Some r \<and> lookup_token r c0 v0 = Some i0)
   \<Longrightarrow> token_registry_path g' = Some path \<and> lookup_token (token_registry g') c0 v0 = Some i0
       \<and> (fs' path = Some reg \<or> (\<exists>r. fs' path = Some r \<and> lookup_token r c0 v0 = Some i0))"
proof (induction calls arbitrary: g fs)
  case Nil
  then show ?case by simp
next
  case (Cons call calls)
  obtain uuid io_ok v c where call: "call = (uuid, io_ok, v, c)" by (cases call)
  with Cons.prems(1) obtain tok ga fsa
    where step: "generate_token_id seed_of uuid io_ok v c g fs = Some (tok, ga, fsa)"
      and rest: "generate_all seed_of calls ga fsa = Some (g', fs')"
    by (auto split: option.splits)
  from generate_token_id_keeps [OF step Cons.prems(3)] Cons.prems(2)
  have a: "lookup_token (token_registry ga) c0 v0 = Some i0"
    and b: "token_registry_path ga = Some path"
    and c: "fsa = fs \<or> fsa = save_token_registry True ga fs" by simp_all
  from c have d: "fsa path = Some reg \<or> (\<exists>r. fsa path = Some r \<and> lookup_token r c0 v0 = Some i0)"
  proof
    assume "fsa = fs"
    with Cons.prems(4) show ?thesis by simp
  next
    assume "fsa = save_token_registry True ga fs"
    with a b Cons.prems(4) show ?thesis by (auto simp: save_token_registry_def truthy_path_def)
  qed
  from Cons.IH [OF rest b a d] show ?case .
qed

text \<open>
  Where a readable, empty registry document exists at the path, the generator built from
  it returns, for \<open>("initialize_system", "system")\<close>, a string of length 3: \<open>S\<close> and
  two digits. After any run of further calls on that generator, the same call returns the
  identical string, and so does the call on a generator reloaded from the persisted
  document, whether the saves went through or not.
\<close>

lemma generate_token_id_deterministic:
  assumes "path \<noteq> []" and "fs path = Some reg" and "empty_document reg"
  shows "\<exists>tok g0 g1 fs1.
      TokenIDGenerator_init (Some path) fs = Inr g0
    \<and> generate_token_id seed_of uuid io_ok ''initialize_system'' ''system'' g0 fs = Some (tok, g1, fs1)
    \<and> length tok = 3 \<and> hd tok = CHR ''S'' \<and> list_all is_digit (tl tok)
    \<and> (\<forall>calls gn fsn. generate_all seed_of calls g1 fs1 = Some (gn, fsn) \<longrightarrow>
         (\<forall>uuid' io_ok'. generate_token_id seed_of uuid' io_ok' ''initialize_system'' ''system'' gn fsn
                           = Some (tok, gn, fsn))
       \<and> (\<exists>g2. TokenIDGenerator_init (Some path) fsn = Inr g2
             \<and> (\<forall>uuid' io_ok'. \<exists>g3 fs3.
                   generate_token_id seed_of uuid' io_ok' ''initialize_system'' ''system'' g2 fsn
                     = Some (tok, g3, fs3))))"
proof -
  let ?id = "first_id seed_of ''initialize_system''"
  let ?tok = "''S'' @ ?id"
  let ?g0 = "\<lparr>token_registry_path = Some path, token_registry = reg,
              category_counters = initial_counters\<rparr>"
  have S: "(case map_of category_prefixes (lower ''system'') of None \<Rightarrow> ''D'' | Some p \<Rightarrow> p) = ''S''"
    by (simp add: lower_system category_prefixes_def)
  have init: "\<And>fs' r. fs' path = Some r \<Longrightarrow> TokenIDGenerator_init (Some path) fs' =
        Inr \<lparr>token_registry_path = Some path, token_registry = r,
             category_counters = initialize_category_counters r initial_counters\<rparr>"
    using assms(1) by (simp add: TokenIDGenerator_init_def truthy_path_def)
  have init0: "TokenIDGenerator_init (Some path) fs = Inr ?g0"
    using init [of fs reg, OF assms(2)] counters_empty_document [OF assms(3)] by simp
  from generate_first [OF assms(3), of seed_of uuid io_ok path fs] obtain g1
    where first: "generate_token_id seed_of uuid io_ok ''initialize_system'' ''system'' ?g0 fs
                    = Some (?tok, g1, save_token_registry io_ok g1 fs)"
      and path1: "token_registry_path g1 = Some path"
      and look1: "lookup_token (token_registry g1) ''system'' ''initialize_system'' = Some ?id"
    by blast
  have shape: "length ?tok = 3 \<and> hd ?tok = CHR ''S'' \<and> list_all is_digit (tl ?tok)"
    using zfill2_two_digits [of "(seed_of ''initialize_system'' + 1) mod 99 + 1"]
    by (simp add: first_id_def)
  have fs1: "save_token_registry io_ok g1 fs path = Some reg
             \<or> (\<exists>r. save_token_registry io_ok g1 fs path = Some r
                    \<and> lookup_token r ''system'' ''initialize_system'' = Some ?id)"
    using assms(2) look1 by (simp add: save_token_registry_def)
  have later: "\<forall>calls gn fsn.
       generate_all seed_of calls g1 (save_token_registry io_ok g1 fs) = Some (gn, fsn) \<longrightarrow>
         (\<forall>uuid' io_ok'. generate_token_id seed_of uuid' io_ok' ''initialize_system'' ''system'' gn fsn
                           = Some (?tok, gn, fsn))
       \<and> (\<exists>g2. TokenIDGenerator_init (Some path) fsn = Inr g2
             \<and> (\<forall>uuid' io_ok'. \<exists>g3 fs3.
                   generate_token_id seed_of uuid' io_ok' ''initialize_system'' ''system'' g2 fsn
                     = Some (?tok, g3, fs3)))"
  proof (intro allI impI)
    fix calls gn fsn
    assume run: "generate_all seed_of calls g1 (save_token_registry io_ok g1 fs) = Some (gn, fsn)"
    from generate_all_keeps [OF run path1 look1 fs1]
    have lookn: "lookup_token (token_registry gn) ''system'' ''initialize_system'' = Some ?id"
      and fsn: "fsn path = Some reg
                \<or> (\<exists>r. fsn path = Some r \<and> lookup_token r ''system'' ''initialize_system'' = Some ?id)"
      by simp_all
    have again: "\<forall>uuid' io_ok'.
        generate_token_id seed_of uuid' io_ok' ''initialize_system'' ''system'' gn fsn
          = Some (?tok, gn, fsn)"
    proof (intro allI)
      fix uuid' io_ok'
      from lookn have "lookup_token (token_registry gn) (lower ''system'')
                         (normalize_value ''initialize_system'') = Some ?id"
        by (simp add: lower_system normalize_initialize_system)
      from generate_token_id_existing [OF this, of seed_of uuid' io_ok' fsn] S
      show "generate_token_id seed_of uuid' io_ok' ''initialize_system'' ''system'' gn fsn
              = Some (?tok, gn, fsn)" by simp
    qed
    from fsn have reload: "\<exists>g2. TokenIDGenerator_init (Some path) fsn = Inr g2
             \<and> (\<forall>uuid' io_ok'. \<exists>g3 fs3.
                   generate_token_id seed_of uuid' io_ok' ''initialize_system'' ''system'' g2 fsn
                     = Some (?tok, g3, fs3))"
    proof
      assume e: "fsn path = Some reg"
      have "TokenIDGenerator_init (Some path) fsn = Inr ?g0"
        using init [of fsn reg, OF e] counters_empty_document [OF assms(3)] by simp
      moreover have "\<forall>uuid' io_ok'. \<exists>g3 fs3.
          generate_token_id seed_of uuid' io_ok' ''initialize_system'' ''system'' ?g0 fsn
            = Some (?tok, g3, fs3)"
        using generate_first [OF assms(3), of seed_of _ _ path fsn] by blast
      ultimately show ?thesis by blast
    next
      assume "\<exists>r. fsn path = Some r \<and> lookup_token r ''system'' ''initialize_system'' = Some ?id"
      then obtain r where r: "fsn path = Some r"
        and lr: "lookup_token r ''system'' ''initialize_system'' = Some ?id" by blast
      let ?g2 = "\<lparr>token_registry_path = Some path, token_registry = r,
                  category_counters = initialize_category_counters r initial_counters\<rparr>"
      from lr have "lookup_token (token_registry ?g2) (lower ''system'')
                      (normalize_value ''initialize_system'') = Some ?id"
        by (simp add: lower_system normalize_initialize_system)
      from generate_token_id_existing [OF this, of seed_of _ _ fsn] S
      have "\<forall>uuid' io_ok'. \<exists>g3 fs3.
          generate_token_id seed_of uuid' io_ok' ''initialize_system'' ''system'' ?g2 fsn
            = Some (?tok, g3, fs3)" by simp
      with init [of fsn r, OF r] show ?thesis by blast
    qed
    from again reload
    show "(\<forall>uuid' io_ok'. generate_token_id seed_of uuid' io_ok' ''initialize_system'' ''system'' gn fsn
                           = Some (?tok, gn, fsn))
       \<and> (\<exists>g2. TokenIDGenerator_init (Some path) fsn = Inr g2
             \<and> (\<forall>uuid' io_ok'. \<exists>g3 fs3.
                   generate_token_id seed_of uuid' io_ok' ''initialize_system'' ''system'' g2 fsn
                     = Some (?tok, g3, fs3)))" by blast
  qed
  from init0 first shape later show ?thesis by blast
qed

lemma generate_token_id_deterministic_example:
  "''data/token_registry.json'' \<noteq> [] \<and> empty_document [] \<and>
   (\<exists>tok g0 g1 fs1.
      TokenIDGenerator_init (Some ''data/token_registry.json'')
        (Map.empty(''data/token_registry.json'' \<mapsto> [])) = Inr g0
    \<and> generate_token_id sha256_seed (\<lambda>k. 0) True ''initialize_system'' ''system'' g0
        (Map.empty(''data/token_registry.json'' \<mapsto> [])) = Some (tok, g1, fs1)
    \<and> length tok = 3 \<and> hd tok = CHR ''S'' \<and> list_all is_digit (tl tok)
    \<and> (\<forall>calls gn fsn. generate_all sha256_seed calls g1 fs1 = Some (gn, fsn) \<longrightarrow>
         (\<forall>uuid' io_ok'. generate_token_id sha256_seed uuid' io_ok' ''initialize_system'' ''system'' gn fsn
                           = Some (tok, gn, fsn))
       \<and> (\<exists>g2. TokenIDGenerator_init (Some ''data/token_registry.json'') fsn = Inr g2
             \<and> (\<forall>uuid' io_ok'. \<exists>g3 fs3.
                   generate_token_id sha256_seed uuid' io_ok' ''initialize_system'' ''system'' g2 fsn
                     = Some (tok, g3, fs3)))))"
proof -
  have a: "''data/token_registry.json'' \<noteq> []" by simp
  have b: "(Map.empty(''data/token_registry.json'' \<mapsto> ([] :: registry))) ''data/token_registry.json'' = Some []"
    by simp
  have c: "empty_document []" by (simp add: empty_document_def)
  from generate_token_id_deterministic
    [where path = "''data/token_registry.json''"
       and fs = "Map.empty(''data/token_registry.json'' \<mapsto> [])" and reg = "[]"
       and seed_of = sha256_seed and uuid = "\<lambda>k. 0" and io_ok = True, OF a b c] a c
  show ?thesis by blast
qed

text \<open>
  Claim C6 at its starting point. \<open>__init__\<close> calls \<open>_load_token_registry\<close> before it
  assigns \<open>self.category_prefixes\<close>, and the loader's last line, the one that builds the
  empty registry, reads that attribute. With no path (the default, in-memory generator) or
  with a path that holds no readable document, the construction raises
  \<open>AttributeError\<close>: there is no generator with an empty registry to make the first
  call on.
\<close>

theorem TokenIDGenerator_init_without_document:
  "TokenIDGenerator_init None fs = Inl AttributeError
   \<and> TokenIDGenerator_init (Some path) (fs(path := None)) = Inl AttributeError"
  by (simp add: TokenIDGenerator_init_def truthy_path_def)

subsection \<open>Resolving a generated token\<close>

lemma str_nat_digits: "str_nat n \<noteq> [] \<and> list_all is_digit (str_nat n)"
proof (induction n rule: str_nat.induct)
  case (1 n)
  show ?case
  proof (cases "n < 10")
    case True
    then show ?thesis by (subst (1 2) str_nat.simps) (simp add: is_digit_digit_char)
  next
    case False
    with 1 have "list_all is_digit (str_nat (n div 10))" by simp
    with False show ?thesis by (subst (1 2) str_nat.simps) (simp add: is_digit_digit_char)
  qed
qed

lemma int_of_str_snoc: "int_of_str (xs @ [c]) = 10 * int_of_str xs + digit_val c"
  by (simp add: int_of_str_def)

lemma int_of_str_str_nat: "int_of_str (str_nat n) = n"
proof (induction n rule: str_nat.induct)
  case (1 n)
  show ?case
  proof (cases "n < 10")
    case True
    then show ?thesis by (subst str_nat.simps) (simp add: int_of_str_def digit_val_digit_char)
  next
    case False
    with 1 have "int_of_str (str_nat (n div 10)) = n div 10" by simp
    with False show ?thesis
      by (subst str_nat.simps) (simp add: int_of_str_snoc digit_val_digit_char)
  qed
qed

lemma int_of_str_leading_zero: "int_of_str (CHR ''0'' # xs) = int_of_str xs"
  by (simp add: int_of_str_def digit_val_def ord_def)

lemma zfill2_isdigit: "isdigit (zfill2 n)"
  using str_nat_digits [of n] by (simp add: zfill2_def isdigit_def is_digit_def ord_def)

lemma int_of_str_zfill2_any: "int_of_str (zfill2 n) = n"
  by (simp add: zfill2_def int_of_str_leading_zero int_of_str_str_nat)

lemma find_unique:
  "map_of toks v = Some i \<Longrightarrow> distinct (map snd toks) \<Longrightarrow> find (\<lambda>(v, t). t = i) toks = Some (v, i)"
proof (induction toks)
  case Nil
  then show ?case by simp
next
  case (Cons a toks)
  obtain w j where a: "a = (w, j)" by (cases a)
  show ?case
  proof (cases "w = v")
    case True
    with Cons.prems a show ?thesis by simp
  next
    case False
    with Cons.prems a have m: "map_of toks v = Some i" by simp
    then have "i \<in> snd ` set toks" by (metis image_eqI map_of_SomeD snd_conv)
    with Cons.prems(2) a have "j \<noteq> i" by auto
    with Cons.IH [OF m] Cons.prems(2) a show ?thesis by simp
  qed
qed

lemma update_absent: "map_of toks v = None \<Longrightarrow> AList.update v i toks = toks @ [(v, i)]"
  by (induction toks) (auto split: if_splits)

lemma generate_new_token_id_fresh:
  assumes ok: "registry_ok g c"
    and new: "generate_new_token_id seed_of uuid v c g = Some (i, g1)"
  shows "i \<noteq> [] \<and> i \<notin> set (taken_ids (token_registry g) c)"
proof (cases "v = []")
  case True
  with new have i: "i = zfill2 (counter_of g c)"
    by (auto simp: generate_new_token_id_def Let_def)
  have "zfill2 (counter_of g c) \<notin> set (taken_ids (token_registry g) c)"
  proof
    assume "zfill2 (counter_of g c) \<in> set (taken_ids (token_registry g) c)"
    with ok have "isdigit (zfill2 (counter_of g c))
                    \<longrightarrow> int_of_str (zfill2 (counter_of g c)) < counter_of g c"
      by (auto simp: registry_ok_def list_all_iff)
    then show False by (simp add: zfill2_isdigit int_of_str_zfill2_any)
  qed
  moreover have "zfill2 (counter_of g c) \<noteq> []" using zfill2_isdigit [of "counter_of g c"]
    by (auto simp: isdigit_def)
  ultimately show ?thesis using i by simp
next
  case False
  let ?start = "(seed_of v + counter_of g c) mod 99 + 1"
  from False new obtain r
    where r: "probe uuid 0 (taken_ids (token_registry g) c) ?start ?start = Some r"
      and i: "i = zfill2 r"
    by (auto simp: generate_new_token_id_def Let_def split: option.splits)
  from probe_sound [OF r] have "zfill2 r \<notin> set (taken_ids (token_registry g) c)" by simp
  moreover have "zfill2 r \<noteq> []" using zfill2_isdigit [of r] by (auto simp: isdigit_def)
  ultimately show ?thesis using i by simp
qed

lemma category_of_own_prefix:
  "c \<in> set unambiguous_categories
   \<Longrightarrow> \<exists>p. map_of category_prefixes c = Some [p] \<and> category_of_prefix [p] = Some c \<and> lower c = c"
  by (auto simp: unambiguous_categories_def category_prefixes_def category_of_prefix_def
      lower_def lower_char_def ord_def)

lemma get_value_from_token_found:
  assumes "category_of_prefix [p] = Some c" and "map_of reg c = Some toks"
    and "map_of toks v = Some i" and "distinct (map snd toks)" and "i \<noteq> []"
    and "token_registry g = reg"
  shows "get_value_from_token g (p # i) = (Some v, Some c)"
  using assms find_unique [OF assms(3,4)]
  by (cases i) (simp_all add: get_value_from_token_def)

lemma store_token_distinct:
  assumes "lookup_token reg c v = None" and "distinct (taken_ids reg c)"
    and "i \<notin> set (taken_ids reg c)"
  shows "\<exists>toks. map_of (store_token c v i reg) c = Some toks \<and> map_of toks v = Some i
            \<and> distinct (map snd toks)"
proof (cases "map_of reg c")
  case None
  then show ?thesis by (simp add: store_token_def map_of_append map_add_def)
next
  case (Some toks)
  with assms(1) have none: "map_of toks v = None" by (simp add: lookup_token_def)
  then have "AList.update v i toks = toks @ [(v, i)]" by (rule update_absent)
  with Some assms(2,3) none show ?thesis
    by (simp add: store_token_def taken_ids_def update_conv' map_add_def)
qed

text \<open>
  Claim C2, amended. For each of the twelve categories other than \<open>security\<close>, on a
  generator whose registry for that category has distinct, non-empty identifiers below
  the category's counter, a call of \<open>generate_token_id\<close> that returns gives a token
  that \<open>get_value_from_token\<close> resolves to the normalised value and the category.
\<close>

theorem resolve_generated_token:
  assumes cat: "category \<in> set unambiguous_categories"
    and ok: "registry_ok g category"
    and ret: "generate_token_id seed_of uuid io_ok value category g fs = Some (tok, g', fs')"
  shows "resolve_generated seed_of uuid io_ok value category g fs
           = Some (tok, Some (normalize_value value), Some category)"
proof -
  from category_of_own_prefix [OF cat] obtain p
    where p: "map_of category_prefixes category = Some [p]"
      and cp: "category_of_prefix [p] = Some category" and low: "lower category = category"
    by blast
  have "get_value_from_token g' tok = (Some (normalize_value value), Some category)"
  proof (cases "lookup_token (token_registry g) category (normalize_value value)")
    case (Some i)
    with low have "lookup_token (token_registry g) (lower category) (normalize_value value) = Some i"
      by simp
    from generate_token_id_existing [OF this, of seed_of uuid io_ok fs] ret p low
    have tok: "tok = p # i" and g': "g' = g" by simp_all
    from Some obtain toks where toks: "map_of (token_registry g) category = Some toks"
      and v: "map_of toks (normalize_value value) = Some i"
      by (auto simp: lookup_token_def split: option.splits)
    from toks ok have d: "distinct (map snd toks)" and ne: "[] \<notin> snd ` set toks"
      by (simp_all add: registry_ok_def taken_ids_def)
    from v have "i \<in> snd ` set toks" by (metis image_eqI map_of_SomeD snd_conv)
    with ne have "i \<noteq> []" by blast
    from get_value_from_token_found [OF cp toks v d this] tok g' show ?thesis by simp
  next
    case None
    with low have n: "lookup_token (token_registry g) (lower category) (normalize_value value) = None"
      by simp
    from generate_token_id_new [OF n ret] p low obtain i g1
      where new: "generate_new_token_id seed_of uuid (normalize_value value) category g = Some (i, g1)"
        and tok: "tok = p # i"
        and reg: "token_registry g' = store_token category (normalize_value value) i (token_registry g)"
      by auto
    from generate_new_token_id_fresh [OF ok new]
    have ine: "i \<noteq> []" and fresh: "i \<notin> set (taken_ids (token_registry g) category)" by simp_all
    from ok have "distinct (taken_ids (token_registry g) category)" by (simp add: registry_ok_def)
    from store_token_distinct [OF None this fresh] obtain toks
      where "map_of (store_token category (normalize_value value) i (token_registry g)) category
               = Some toks"
        and "map_of toks (normalize_value value) = Some i" and "distinct (map snd toks)" by blast
    from get_value_from_token_found [OF cp this ine reg] tok show ?thesis by simp
  qed
  with ret show ?thesis by (simp add: resolve_generated_def)
qed

lemma digit_char_eval:
  "digit_char 1 = CHR ''1''" "digit_char 2 = CHR ''2''" "digit_char 3 = CHR ''3''"
  "digit_char 4 = CHR ''4''" "digit_char 5 = CHR ''5''" "digit_char 6 = CHR ''6''"
  "digit_char 7 = CHR ''7''" "digit_char 8 = CHR ''8''" "digit_char 9 = CHR ''9''"
  by (simp_all add: digit_char_def char_of_eq_iff)

lemma sample_counter: "counter_of (sample_generator sample_registry) ''task'' = 61"
  by (simp add: counter_of_def sample_generator_def sample_registry_def
      initialize_category_counters_def counter_step_def initial_counters_def
      category_prefixes_def max_id_def isdigit_def is_digit_def ord_def int_of_str_def
      digit_val_def)

lemma sample_taken:
  "taken_ids (token_registry (sample_generator sample_registry)) ''task'' = [''08'', ''60'']"
  by (simp add: taken_ids_def sample_generator_def sample_registry_def)

lemma zfill2_eval: "zfill2 8 = ''08''" "zfill2 9 = ''09''"
  by (simp_all add: zfill2_def str_nat.simps digit_char_eval)

lemma sample_probe: "probe uuid 0 [''08'', ''60''] 8 8 = Some 9"
proof -
  have "probe uuid 0 [''08'', ''60''] 8 8 = probe uuid 0 [''08'', ''60''] 8 9"
    by (subst probe.simps) (simp add: zfill2_eval)
  also have "\<dots> = Some 9" by (rule probe_free) (simp add: zfill2_eval)
  finally show ?thesis .
qed

lemma sample_generate:
  "\<exists>g' fs'. generate_token_id sha256_seed (\<lambda>k. 0) True ''abc'' ''task''
      (sample_generator sample_registry) Map.empty = Some (''T09'', g', fs')"
proof -
  have n: "normalize_value ''abc'' = ''abc''"
    by (simp add: normalize_value_def lower_def lower_char_def ord_def is_word_def is_space_def
        is_digit_def)
  have l: "lower ''task'' = ''task''" by (simp add: lower_def lower_char_def ord_def)
  have look: "lookup_token (token_registry (sample_generator sample_registry)) ''task'' ''abc'' = None"
    by (simp add: lookup_token_def sample_generator_def sample_registry_def)
  have new: "\<exists>g1. generate_new_token_id sha256_seed (\<lambda>k. 0) ''abc'' ''task''
          (sample_generator sample_registry) = Some (''09'', g1)"
    by (simp add: generate_new_token_id_def Let_def sample_counter sample_taken sha256_seed_def
        sample_probe zfill2_eval)
  then obtain g1 where "generate_new_token_id sha256_seed (\<lambda>k. 0) ''abc'' ''task''
          (sample_generator sample_registry) = Some (''09'', g1)" by blast
  with look show ?thesis
    by (simp add: generate_token_id_def Let_def n l category_prefixes_def)
qed

theorem resolve_generated_token_witness:
  "''task'' \<in> set unambiguous_categories \<and> registry_ok (sample_generator sample_registry) ''task'' \<and>
   resolve_generated sha256_seed (\<lambda>k. 0) True ''abc'' ''task'' (sample_generator sample_registry)
     Map.empty = Some (''T09'', Some ''abc'', Some ''task'')"
proof -
  have a: "''task'' \<in> set unambiguous_categories" by (simp add: unambiguous_categories_def)
  have b: "registry_ok (sample_generator sample_registry) ''task''"
    by (simp add: registry_ok_def sample_counter)
      (simp add: sample_generator_def sample_registry_def taken_ids_def isdigit_def
        is_digit_def ord_def int_of_str_def digit_val_def)
  have n: "normalize_value ''abc'' = ''abc''"
    by (simp add: normalize_value_def lower_def lower_char_def ord_def is_word_def is_space_def
        is_digit_def)
  from sample_generate obtain g' fs'
    where "generate_token_id sha256_seed (\<lambda>k. 0) True ''abc'' ''task''
             (sample_generator sample_registry) Map.empty = Some (''T09'', g', fs')" by blast
  from resolve_generated_token [OF a b this] a b n show ?thesis by simp
qed

text \<open>
  Claim C2 as stated fails for \<open>security\<close>: its token starts with \<open>S\<close>, which
  \<open>get_value_from_token\<close> takes for \<open>system\<close>, the first category of the table with
  that prefix.
\<close>

theorem resolve_generated_security_counterexample:
  "resolve_generated sha256_seed (\<lambda>k. 0) True ''x'' ''security'' (sample_generator []) Map.empty
     = Some (''S56'', None, None)
   \<and> (None, None) \<noteq> (Some (normalize_value ''x''), Some ''security'')"
  by (simp add: resolve_generated_def generate_token_id_def generate_new_token_id_def Let_def
      sample_generator_def initialize_category_counters_def initial_counters_def
      category_prefixes_def counter_of_def lookup_token_def taken_ids_def probe_free
      sha256_seed_def normalize_value_def lower_def lower_char_def ord_def is_word_def
      is_space_def is_digit_def store_token_def get_value_from_token_def category_of_prefix_def
      save_token_registry_def zfill2_def str_nat.simps digit_char_eval int_of_str_def digit_val_def)

text \<open>For every value and every generator, the token generated for \<open>security\<close> is never
  resolved to \<open>security\<close>.\<close>

lemma get_value_from_token_S:
  "snd (get_value_from_token g (CHR ''S'' # i)) \<noteq> Some ''security''"
proof -
  have "category_of_prefix ''S'' = Some ''system''"
    by (simp add: category_of_prefix_def category_prefixes_def)
  then show ?thesis
    by (auto simp: get_value_from_token_def split: option.splits prod.splits)
qed

lemma security_token_resolves_elsewhere:
  assumes "generate_token_id seed_of uuid io_ok value ''security'' g fs = Some (tok, g', fs')"
  shows "snd (get_value_from_token g' tok) \<noteq> Some ''security''"
proof -
  have low: "lower ''security'' = ''security''" by (simp add: lower_def lower_char_def ord_def)
  have pre: "map_of category_prefixes ''security'' = Some ''S''"
    by (simp add: category_prefixes_def)
  have "\<exists>i. tok = CHR ''S'' # i"
  proof (cases "lookup_token (token_registry g) (lower ''security'') (normalize_value value)")
    case (Some i)
    from generate_token_id_existing [OF this, of seed_of uuid io_ok fs] assms low pre
    show ?thesis by simp
  next
    case None
    from generate_token_id_new [OF None assms] low pre show ?thesis by auto
  qed
  then show ?thesis using get_value_from_token_S by blast
qed

subsection \<open>Unknown categories\<close>

lemma saturated_taken: "saturated (taken_ids saturated_registry ''custom'')"
  by (simp add: saturated_def taken_ids_def saturated_registry_def list_all_iff comp_def)

lemma normalize_new_value: "normalize_value ''new_value'' = ''new_value''"
  by (simp add: normalize_value_def lower_def lower_char_def ord_def is_word_def is_space_def
      is_digit_def)

lemma lower_custom: "lower ''custom'' = ''custom''"
  by (simp add: lower_def lower_char_def ord_def)

lemma saturated_lookup: "lookup_token saturated_registry ''custom'' ''new_value'' = None"
  by (auto simp: lookup_token_def saturated_registry_def map_of_eq_None_iff)

text \<open>
  Claim C9 at a saturated category. When the registry of an unknown category holds all
  of \<open>01\<close> to \<open>99\<close>, the collision loop finds every candidate taken, the UUID
  fallback included, and \<open>generate_token_id\<close> never returns.
\<close>

theorem generate_token_id_saturated:
  "generate_token_id seed_of uuid io_ok ''new_value'' ''custom''
     (sample_generator saturated_registry) fs = None"
proof -
  let ?g = "sample_generator saturated_registry"
  let ?start = "(seed_of ''new_value'' + counter_of ?g ''custom'') mod 99 + 1"
  have reg: "token_registry ?g = saturated_registry" by (simp add: sample_generator_def)
  have "probe uuid 0 (taken_ids saturated_registry ''custom'') ?start ?start = None"
    by (rule probe_saturated [OF saturated_taken]) simp_all
  then have "generate_new_token_id seed_of uuid ''new_value'' ''custom'' ?g = None"
    by (simp add: generate_new_token_id_def Let_def reg)
  then show ?thesis
    by (simp add: generate_token_id_def Let_def normalize_new_value lower_custom reg
        saturated_lookup)
qed

text \<open>
  Where the call does return, an unknown category gets the prefix \<open>D\<close> and the value
  is stored under the lower-cased category name; it returns whenever the category holds
  fewer than 99 distinct two-digit identifiers.
\<close>

lemma generate_token_id_unknown_category:
  assumes "map_of category_prefixes (lower category) = None"
    and "generate_token_id seed_of uuid io_ok value category g fs = Some (tok, g', fs')"
  shows "take 1 tok = ''D''
         \<and> lookup_token (token_registry g') (lower category) (normalize_value value) = Some (drop 1 tok)"
proof (cases "lookup_token (token_registry g) (lower category) (normalize_value value)")
  case (Some i)
  from generate_token_id_existing [OF this, of seed_of uuid io_ok fs] assms Some
  show ?thesis by simp
next
  case None
  from generate_token_id_new [OF None assms(2)] assms(1) show ?thesis
    by (auto simp: lookup_store_token)
qed

lemma generate_token_id_returns:
  assumes "length (two_digit_ids (token_registry g) (lower category)) < 99"
  shows "\<exists>tok g' fs'. generate_token_id seed_of uuid io_ok value category g fs = Some (tok, g', fs')"
proof (cases "lookup_token (token_registry g) (lower category) (normalize_value value)")
  case (Some i)
  from generate_token_id_existing [OF this] show ?thesis by blast
next
  case None
  have "\<exists>i g1. generate_new_token_id seed_of uuid (normalize_value value) (lower category) g
                 = Some (i, g1)"
  proof (cases "normalize_value value = []")
    case True
    then show ?thesis by (simp add: generate_new_token_id_def Let_def)
  next
    case False
    from generate_new_token_id_total [OF False assms] show ?thesis by blast
  qed
  then obtain i g1
    where "generate_new_token_id seed_of uuid (normalize_value value) (lower category) g
             = Some (i, g1)" by blast
  with None show ?thesis by (simp add: generate_token_id_def Let_def)
qed

section \<open>Properties of the context manager\<close>

subsection \<open>Order of the scan\<close>

lemma modifier_outer:
  "modifier_for outer_context (PStr ''T'') = Inr (Some (PDict [(''override'', PStr ''outer_definition'')]))"
  by (simp add: modifier_for_def outer_context_def dict_get_default_def)

lemma modifier_inner:
  "modifier_for inner_context (PStr ''T'') = Inr (Some (PDict [(''override'', PStr ''inner_definition'')]))"
  by (simp add: modifier_for_def inner_context_def dict_get_default_def)

text \<open>
  Claim C3 as stated fails: with two active contexts that both carry a modifier for the
  token's category, the modifier of the one activated first is applied.
\<close>

theorem resolve_in_context_innermost_counterexample:
  "resolve_in_context (activate_context inner_context (activate_context outer_context []))
      task_token [] = Inr (PStr ''outer_definition'')
   \<and> modifier_for inner_context (dict_get task_token ''categoryCode'')
       = Inr (Some (PDict [(''override'', PStr ''inner_definition'')]))
   \<and> apply_context_modifier [] (PDict [(''override'', PStr ''inner_definition'')])
       = Inr (PStr ''inner_definition'')"
  by (simp add: resolve_in_context_def activate_context_def get_current_context_def
      lookup_definition_def context_behavior_def dict_get_def task_token_def
      modifier_outer modifier_inner apply_context_modifier_def)
    (simp add: inner_context_def)

lemma scan_contexts_first:
  "list_all (\<lambda>ctx. modifier_for ctx category = Inr None) outer
   \<Longrightarrow> scan_contexts (outer @ rest) category token_def = scan_contexts rest category token_def"
  by (induction outer) simp_all

text \<open>
  Claim C3, amended. \<open>resolve_in_context\<close> scans the stack from the bottom (the context
  activated first, the outermost) to the top: when the innermost context is non-empty and
  the token's definition has no \<open>contextBehaviors\<close> entry for its id, the modifier applied
  is that of the first context from the bottom that carries one for the category,
  whatever the contexts above it carry.
\<close>

theorem resolve_in_context_outermost_wins:
  assumes "lookup_definition token_dictionary (dict_get token ''value'') = Inr token_def"
    and "last (outer @ ctx # inner) \<noteq> []"
    and "context_behavior token_def (dict_get (last (outer @ ctx # inner)) ''id'') = Inr None"
    and "list_all (\<lambda>c. modifier_for c (dict_get token ''categoryCode'') = Inr None) outer"
    and "modifier_for ctx (dict_get token ''categoryCode'') = Inr (Some modifier)"
  shows "resolve_in_context (outer @ ctx # inner) token token_dictionary
           = apply_context_modifier token_def modifier"
proof -
  have "scan_contexts (outer @ ctx # inner) (dict_get token ''categoryCode'') token_def
          = apply_context_modifier token_def modifier"
    using scan_contexts_first [OF assms(4)] assms(5) by simp
  with assms(1,2,3) show ?thesis
    by (simp add: resolve_in_context_def get_current_context_def)
qed

theorem resolve_in_context_outermost_wins_witness:
  "lookup_definition [] (dict_get task_token ''value'') = Inr []
   \<and> last ([system_context] @ outer_context # [inner_context]) \<noteq> []
   \<and> context_behavior [] (dict_get (last ([system_context] @ outer_context # [inner_context])) ''id'') = Inr None
   \<and> list_all (\<lambda>c. modifier_for c (dict_get task_token ''categoryCode'') = Inr None)
        [system_context]
   \<and> modifier_for outer_context (dict_get task_token ''categoryCode'')
       = Inr (Some (PDict [(''override'', PStr ''outer_definition'')]))
   \<and> resolve_in_context ([system_context] @ outer_context # [inner_context]) task_token []
       = Inr (PStr ''outer_definition'')"
proof -
  have a: "lookup_definition [] (dict_get task_token ''value'') = Inr []"
    by (simp add: lookup_definition_def dict_get_def task_token_def)
  have b: "last ([system_context] @ outer_context # [inner_context]) \<noteq> []" by (simp add: inner_context_def)
  have c: "context_behavior [] (dict_get (last ([system_context] @ outer_context # [inner_context])) ''id'') = Inr None"
    by (simp add: context_behavior_def)
  have d: "list_all (\<lambda>c. modifier_for c (dict_get task_token ''categoryCode'') = Inr None)
             [system_context]"
    by (simp add: modifier_for_def system_context_def dict_get_default_def)
  have e: "modifier_for outer_context (dict_get task_token ''categoryCode'')
       = Inr (Some (PDict [(''override'', PStr ''outer_definition'')]))"
    by (simp add: dict_get_def task_token_def modifier_outer)
  have f: "apply_context_modifier [] (PDict [(''override'', PStr ''outer_definition'')])
             = Inr (PStr ''outer_definition'')"
    by (simp add: apply_context_modifier_def)
  from resolve_in_context_outermost_wins [OF a b c d e] a b c d e f show ?thesis by simp
qed

subsection \<open>The extend modifier\<close>

lemma extend_item_eq:
  "extend_item d (k, v) = AList.update k (extend_value (map_of d k) v) d"
  by (cases "map_of d k"; cases v)
    (auto simp: extend_item_def split: pyval.splits option.splits)

lemma map_of_extend:
  "distinct (map fst ext) \<Longrightarrow>
   map_of (foldl extend_item d ext) k =
     (case map_of ext k of
        None \<Rightarrow> map_of d k
      | Some prop_value \<Rightarrow> Some (extend_value (map_of d k) prop_value))"
proof (induction ext arbitrary: d)
  case Nil
  then show ?case by simp
next
  case (Cons a ext)
  obtain k1 v1 where a: "a = (k1, v1)" by (cases a)
  with Cons.prems have d: "distinct (map fst ext)" and n: "k1 \<notin> fst ` set ext" by simp_all
  from n have none: "map_of ext k1 = None" by (simp add: map_of_eq_None_iff)
  show ?case
    using Cons.IH [OF d, of "extend_item d (k1, v1)"] a none
    by (auto simp: extend_item_eq update_conv' split: option.splits)
qed

lemma map_of_dict_update:
  "distinct (map fst other) \<Longrightarrow>
   map_of (dict_update d other) k = (case map_of other k of None \<Rightarrow> map_of d k | Some v \<Rightarrow> Some v)"
proof (induction other arbitrary: d)
  case Nil
  then show ?case by (simp add: dict_update_def)
next
  case (Cons a other)
  obtain k1 v1 where a: "a = (k1, v1)" by (cases a)
  with Cons.prems have d: "distinct (map fst other)" and n: "k1 \<notin> fst ` set other" by simp_all
  from n have none: "map_of other k1 = None" by (simp add: map_of_eq_None_iff)
  show ?case
    using Cons.IH [OF d, of "AList.update k1 v1 d"] a none
    by (auto simp: dict_update_def update_conv' split: option.splits)
qed

text \<open>
  Claim C7, amended. An \<open>extend\<close> modifier adds the keys the definition lacks; for a
  key present on both sides, two dictionaries are merged with the extension's entries
  replacing the definition's on shared sub-keys, two lists are concatenated (the
  definition's items first), and in every other case the extension's value replaces the
  definition's. The definition's value is kept for the keys the extension does not name.
\<close>

theorem apply_context_modifier_extend:
  assumes "distinct (map fst ext)"
  shows "\<exists>resolved. apply_context_modifier token_def (PDict [(''extend'', PDict ext)])
                      = Inr (PDict resolved)
           \<and> (\<forall>k. map_of resolved k =
                 (case map_of ext k of
                    None \<Rightarrow> map_of token_def k
                  | Some prop_value \<Rightarrow> Some (extend_value (map_of token_def k) prop_value)))
           \<and> (\<forall>k old new j.
                 map_of token_def k = Some (PDict old) \<and> map_of ext k = Some (PDict new)
                 \<and> distinct (map fst new) \<longrightarrow>
                 (\<exists>merged. map_of resolved k = Some (PDict merged)
                    \<and> map_of merged j = (case map_of new j of None \<Rightarrow> map_of old j | Some v \<Rightarrow> Some v)))"
proof -
  let ?resolved = "foldl extend_item token_def ext"
  have 1: "apply_context_modifier token_def (PDict [(''extend'', PDict ext)]) = Inr (PDict ?resolved)"
    by (simp add: apply_context_modifier_def)
  have 2: "\<forall>k. map_of ?resolved k =
                 (case map_of ext k of
                    None \<Rightarrow> map_of token_def k
                  | Some prop_value \<Rightarrow> Some (extend_value (map_of token_def k) prop_value))"
    using map_of_extend [OF assms] by simp
  have 3: "\<forall>k old new j.
                 map_of token_def k = Some (PDict old) \<and> map_of ext k = Some (PDict new)
                 \<and> distinct (map fst new) \<longrightarrow>
                 (\<exists>merged. map_of ?resolved k = Some (PDict merged)
                    \<and> map_of merged j = (case map_of new j of None \<Rightarrow> map_of old j | Some v \<Rightarrow> Some v))"
  proof (intro allI impI)
    fix k old new j
    assume h: "map_of token_def k = Some (PDict old) \<and> map_of ext k = Some (PDict new)
                 \<and> distinct (map fst new)"
    with 2 have "map_of ?resolved k = Some (PDict (dict_update old new))" by simp
    moreover from h have "map_of (dict_update old new) j
                            = (case map_of new j of None \<Rightarrow> map_of old j | Some v \<Rightarrow> Some v)"
      by (simp add: map_of_dict_update)
    ultimately show "\<exists>merged. map_of ?resolved k = Some (PDict merged)
                    \<and> map_of merged j = (case map_of new j of None \<Rightarrow> map_of old j | Some v \<Rightarrow> Some v)"
      by blast
  qed
  from 1 2 3 show ?thesis by blast
qed

theorem apply_context_modifier_extend_witness:
  "distinct (map fst extension)
   \<and> (\<exists>resolved. apply_context_modifier base_definition (PDict [(''extend'', PDict extension)])
                      = Inr (PDict resolved)
           \<and> (\<forall>k. map_of resolved k =
                 (case map_of extension k of
                    None \<Rightarrow> map_of base_definition k
                  | Some prop_value \<Rightarrow> Some (extend_value (map_of base_definition k) prop_value)))
           \<and> (\<forall>k old new j.
                 map_of base_definition k = Some (PDict old) \<and> map_of extension k = Some (PDict new)
                 \<and> distinct (map fst new) \<longrightarrow>
                 (\<exists>merged. map_of resolved k = Some (PDict merged)
                    \<and> map_of merged j = (case map_of new j of None \<Rightarrow> map_of old j | Some v \<Rightarrow> Some v))))"
proof -
  have d: "distinct (map fst extension)" by (simp add: extension_def)
  from apply_context_modifier_extend [OF d, of base_definition] d show ?thesis by blast
qed

text \<open>
  Claim C7 as stated fails: \<open>timeout\<close> is in the definition and in the extension, and the
  resolved definition holds the extension's 60, not the definition's 30; in the nested
  dictionary \<open>limits\<close> the extension's \<open>cpu\<close> replaces the definition's.
\<close>

theorem apply_context_modifier_extend_counterexample:
  "apply_context_modifier base_definition (PDict [(''extend'', PDict extension)])
       = Inr (PDict [(''timeout'', PInt 60), (''tags'', PList [PStr ''a'', PStr ''b'']),
                     (''limits'', PDict [(''cpu'', PInt 4)]), (''retries'', PInt 3)])
   \<and> dict_get base_definition ''timeout'' = PInt 30
   \<and> dict_get extension ''timeout'' = PInt 60
   \<and> dict_get base_definition ''limits'' = PDict [(''cpu'', PInt 1)]"
  by (simp add: apply_context_modifier_def extension_def base_definition_def extend_item_def
      dict_update_def dict_get_def)

section \<open>Properties of the structure synthesizer\<close>

lemma shunting_loop_tokens:
  "shunting_loop (map Token vs) i output_queue [] = output_queue @ drop i (map Token vs)"
proof (induction "length vs - i" arbitrary: i output_queue)
  case 0
  then show ?case by (subst shunting_loop.simps) simp
next
  case (Suc n)
  then have lt: "i < length vs" and n: "n = length vs - Suc i" by simp_all
  have "shunting_loop (map Token vs) i output_queue []
          = shunting_loop (map Token vs) (Suc i) (output_queue @ [Token (vs ! i)]) []"
    using lt by (subst shunting_loop.simps) simp
  also have "\<dots> = (output_queue @ [Token (vs ! i)]) @ drop (Suc i) (map Token vs)"
    using Suc.hyps(1) [OF n] .
  also have "\<dots> = output_queue @ drop i (map Token vs)"
    using lt by (simp add: Cons_nth_drop_Suc [symmetric])
  finally show ?case .
qed

lemma build_loop_tokens: "build_loop (map Token vs) stack = Inr (stack @ vs)"
  by (induction vs arbitrary: stack) simp_all

lemma build_expression_tokens: "vs \<noteq> [] \<Longrightarrow> build_expression (map Token vs) = Inr (hd vs)"
  by (simp add: build_loop_tokens)

text \<open>
  Claim C4, amended. For a semantic structure with a non-empty token list, no
  relationships and no direct elements, \<open>synthesize\<close> returns the value of the first
  token: \<open>T12\<close> for the single-token structure, and the first value alone when there
  are more tokens.
\<close>

theorem synthesize_tokens_only:
  assumes "semantic_structure analysis = Some structure"
    and "elements structure = []" and "relationships structure = []"
    and "tokens structure \<noteq> []"
  shows "synthesize analysis = Inr (token_of (hd (tokens structure)))"
proof -
  let ?vs = "map token_of (tokens structure)"
  have els: "convert_to_expression_elements structure (token_mappings analysis) = map Token ?vs"
    using assms by (simp add: convert_to_expression_elements_def token_elements_def)
  have ne: "map Token ?vs \<noteq> []" using assms(4) by simp
  have "apply_shunting_yard (map Token ?vs) = map Token ?vs"
    unfolding apply_shunting_yard_def shunting_loop_tokens by simp
  moreover have "build_expression (map Token ?vs) = Inr (hd ?vs)"
    using assms(4) by (intro build_expression_tokens) simp
  ultimately show ?thesis using assms(1,4) els ne
    by (simp only: synthesize_def Let_def option.case if_False hd_map list.map_disc_iff)
qed

theorem synthesize_tokens_only_witness:
  "semantic_structure (analysis_of single_token_structure) = Some single_token_structure
   \<and> elements single_token_structure = [] \<and> relationships single_token_structure = []
   \<and> tokens single_token_structure \<noteq> []
   \<and> synthesize (analysis_of single_token_structure) = Inr ''T12''"
proof -
  have a: "semantic_structure (analysis_of single_token_structure) = Some single_token_structure"
    by (simp add: analysis_of_def)
  have b: "elements single_token_structure = []" by (simp add: single_token_structure_def)
  have c: "relationships single_token_structure = []" by (simp add: single_token_structure_def)
  have d: "tokens single_token_structure \<noteq> []" by (simp add: single_token_structure_def)
  have e: "token_of (hd (tokens single_token_structure)) = ''T12''"
    by (simp add: single_token_structure_def token_of_def)
  from synthesize_tokens_only [OF a b c d] a b c d e show ?thesis by simp
qed

text \<open>
  Claim C4 as stated fails for two tokens: the operand stack holds both values and
  \<open>_build_expression\<close> returns \<open>stack[0]\<close>, not their concatenation.
\<close>

theorem synthesize_two_tokens_counterexample:
  "synthesize (analysis_of two_token_structure) = Inr ''T12''
   \<and> ''T12'' \<noteq> concat (map token_of (tokens two_token_structure))
   \<and> concat (map token_of (tokens two_token_structure)) = ''T12T13''"
proof -
  have "shunting_loop [Token ''T12'', Token ''T13''] 0 [] [] = [Token ''T12'', Token ''T13'']"
    using shunting_loop_tokens [of "[''T12'', ''T13'']" 0 "[]"] by simp
  then show ?thesis
    by (simp add: synthesize_def analysis_of_def two_token_structure_def
        convert_to_expression_elements_def token_elements_def token_of_def apply_shunting_yard_def)
qed

section \<open>Properties of the parser and of the expression synthesizer\<close>

subsection \<open>How a derived string begins\<close>




















lemma lexed_plain: "lexed (concat ls) ls"
proof (induction ls)
  case Nil
  show ?case using lexed_end [of "[]"] by simp
next
  case (Cons l ls)
  show ?case using lexed_lexeme [of "[]" "concat ls" ls l] Cons by simp
qed

subsection \<open>Strings the grammar derives\<close>

text \<open>The conditional with two-digit identifiers and the postfix repetition are derived:
  the relation is not empty where the grammar has a rule.\<close>

lemma token_T: "IDENTIFIER i \<Longrightarrow> derives Token_rule [''T'', i]"
  by (rule token_standard, rule standard_token) (simp_all add: CATEGORY_CODE_def)

lemma token_C: "IDENTIFIER i \<Longrightarrow> derives Token_rule [''C'', i]"
  by (rule token_standard, rule standard_token) (simp_all add: CATEGORY_CODE_def)

lemma token_piping: "derives Token_rule t \<Longrightarrow> derives Piping_expression t"
  by (intro piping1 parallel1 sequence1 aggregation_plain repetition_plain atomic_token)

lemma parse_conditional_two_digits: "parse_accepts ''C02?T13:T16''"
proof -
  have i: "IDENTIFIER ''02''" "IDENTIFIER ''13''" "IDENTIFIER ''16''"
    by (simp_all add: IDENTIFIER_def is_digit_def ord_def)
  have "derives Conditional_expression
          ([''C'', ''02''] @ [''?''] @ [''T'', ''13''] @ ['':''] @ [''T'', ''16''])"
    by (intro conditional2 conditional1 token_piping token_C token_T i)
  then have "derives Pailang [''C'', ''02'', ''?'', ''T'', ''13'', '':'', ''T'', ''16'']"
    by (auto intro: pailang_plain expression assignment1)
  moreover have "lexed (concat [''C'', ''02'', ''?'', ''T'', ''13'', '':'', ''T'', ''16''])
                   [''C'', ''02'', ''?'', ''T'', ''13'', '':'', ''T'', ''16'']"
    by (rule lexed_plain)
  ultimately show ?thesis unfolding parse_accepts_def by (intro exI conjI) simp_all
qed

lemma parse_postfix_repetition: "parse_accepts ''T17**3''"
proof -
  have "derives Repetition_expression ([''T'', ''17''] @ [''**'', ''3''])"
    by (intro repetition_count atomic_token token_T)
      (simp_all add: IDENTIFIER_def DIGIT_def is_digit_def ord_def)
  then have r: "derives Repetition_expression [''T'', ''17'', ''**'', ''3'']" by simp
  have "derives Pailang [''T'', ''17'', ''**'', ''3'']"
    by (intro pailang_plain expression assignment1 conditional1 piping1 parallel1
        sequence1 aggregation_plain r)
  moreover have "lexed (concat [''T'', ''17'', ''**'', ''3'']) [''T'', ''17'', ''**'', ''3'']"
    by (rule lexed_plain)
  ultimately show ?thesis unfolding parse_accepts_def by (intro exI conjI) simp_all
qed

subsection \<open>The conditional of the specification\<close>


subsection \<open>Rendering and parsing again\<close>


end
